theory Spec2Isabelle
  imports Complex_Main
begin

section \<open>JavaScript numbers and values\<close>

text \<open>
  A JavaScript number is a binary64 value: NaN, +Infinity, -Infinity or a finite number,
  kept as the real it denotes. Each arithmetic operation takes the exact real result and
  rounds it to the nearest binary64 value, the one with the even significand on a tie
  (\<open>round64\<close>): the spacing of the values is \<open>2^(e - 52)\<close> for a magnitude in
  \<open>[2^e, 2^(e + 1))\<close> and \<open>2^(-1074)\<close> below \<open>2^(-1022)\<close>, and a result that rounds to
  \<open>2^1024\<close> or beyond in magnitude is the infinity of its sign. The sign of zero is not
  kept: a zero divisor is taken as +0, which differs from the program only in the sign of
  an infinite \<open>diffPercent\<close> when a negative average underflows to zero.
\<close>

datatype jsnum = NaN | PInf | NInf | Fin real

fun isNaN :: "jsnum \<Rightarrow> bool" where
  "isNaN NaN = True"
| "isNaN _ = False"

fun isFinite :: "jsnum \<Rightarrow> bool" where
  "isFinite (Fin _) = True"
| "isFinite _ = False"

text \<open>The power \<open>2^e\<close> for an integer exponent.\<close>

definition pow2i :: "int \<Rightarrow> real" where
  "pow2i e = (if 0 \<le> e then 2 ^ nat e else 1 / 2 ^ nat (- e))"

text \<open>The integer closest to \<open>q\<close>, the even one of the two when \<open>q\<close> lies half way.\<close>

definition round_half_even :: "real \<Rightarrow> int" where
  "round_half_even q =
     (let f = \<lfloor>q\<rfloor>; d = q - of_int f
      in if d < 1 / 2 then f else if 1 / 2 < d then f + 1 else if even f then f else f + 1)"

text \<open>The exponent of the spacing of the binary64 values around \<open>x\<close>.\<close>

definition quantum_exp :: "real \<Rightarrow> int" where
  "quantum_exp x = max (\<lfloor>log 2 \<bar>x\<bar>\<rfloor> - 52) (- 1074)"

definition round64 :: "real \<Rightarrow> jsnum" where
  "round64 x =
     (if x = 0 then Fin 0
      else (let e = quantum_exp x;
                y = of_int (round_half_even (x / pow2i e)) * pow2i e
            in if 2 ^ 1024 \<le> \<bar>y\<bar> then (if 0 < x then PInf else NInf) else Fin y))"

text \<open>The infinity (or NaN) that a product or quotient with sign \<open>s\<close> overflows to.\<close>

definition inf_signed :: "real \<Rightarrow> jsnum" where
  "inf_signed s = (if s = 0 then NaN else if 0 < s then PInf else NInf)"

fun neg :: "jsnum \<Rightarrow> jsnum" where
  "neg NaN = NaN"
| "neg PInf = NInf"
| "neg NInf = PInf"
| "neg (Fin a) = Fin (- a)"

fun add :: "jsnum \<Rightarrow> jsnum \<Rightarrow> jsnum" where
  "add (Fin a) (Fin b) = round64 (a + b)"
| "add NaN _ = NaN"
| "add _ NaN = NaN"
| "add PInf NInf = NaN"
| "add NInf PInf = NaN"
| "add PInf _ = PInf"
| "add _ PInf = PInf"
| "add NInf _ = NInf"
| "add _ NInf = NInf"

definition sub :: "jsnum \<Rightarrow> jsnum \<Rightarrow> jsnum" where
  "sub a b = add a (neg b)"

fun mul :: "jsnum \<Rightarrow> jsnum \<Rightarrow> jsnum" where
  "mul (Fin a) (Fin b) = round64 (a * b)"
| "mul NaN _ = NaN"
| "mul _ NaN = NaN"
| "mul PInf (Fin b) = inf_signed b"
| "mul NInf (Fin b) = inf_signed (- b)"
| "mul (Fin a) PInf = inf_signed a"
| "mul (Fin a) NInf = inf_signed (- a)"
| "mul PInf PInf = PInf"
| "mul NInf NInf = PInf"
| "mul PInf NInf = NInf"
| "mul NInf PInf = NInf"

fun divide_js :: "jsnum \<Rightarrow> jsnum \<Rightarrow> jsnum" where
  "divide_js (Fin a) (Fin b) = (if b = 0 then inf_signed a else round64 (a / b))"
| "divide_js NaN _ = NaN"
| "divide_js _ NaN = NaN"
| "divide_js (Fin a) PInf = Fin 0"
| "divide_js (Fin a) NInf = Fin 0"
| "divide_js PInf (Fin b) = (if 0 \<le> b then PInf else NInf)"
| "divide_js NInf (Fin b) = (if 0 \<le> b then NInf else PInf)"
| "divide_js PInf _ = NaN"
| "divide_js NInf _ = NaN"

text \<open>
  \<open>Math.pow(x, 2)\<close>, \<open>Math.sqrt\<close> and \<open>Math.abs\<close>. The square and the square root are
  the correctly rounded ones, as the engine computes them.
\<close>

fun pow2 :: "jsnum \<Rightarrow> jsnum" where
  "pow2 NaN = NaN"
| "pow2 PInf = PInf"
| "pow2 NInf = PInf"
| "pow2 (Fin a) = round64 (a * a)"

fun sqrt_js :: "jsnum \<Rightarrow> jsnum" where
  "sqrt_js NaN = NaN"
| "sqrt_js PInf = PInf"
| "sqrt_js NInf = NaN"
| "sqrt_js (Fin a) = (if a < 0 then NaN else round64 (sqrt a))"

fun abs_js :: "jsnum \<Rightarrow> jsnum" where
  "abs_js NaN = NaN"
| "abs_js PInf = PInf"
| "abs_js NInf = PInf"
| "abs_js (Fin a) = Fin \<bar>a\<bar>"

text \<open>The comparison \<open>a > b\<close> on numbers: false as soon as one side is NaN.\<close>

fun gt :: "jsnum \<Rightarrow> jsnum \<Rightarrow> bool" where
  "gt (Fin a) (Fin b) = (b < a)"
| "gt NaN _ = False"
| "gt _ NaN = False"
| "gt PInf PInf = False"
| "gt PInf _ = True"
| "gt _ PInf = False"
| "gt NInf _ = False"
| "gt _ NInf = True"

text \<open>Strict equality \<open>a === b\<close> on numbers: NaN is not equal to itself.\<close>

definition strict_eq :: "jsnum \<Rightarrow> jsnum \<Rightarrow> bool" where
  "strict_eq a b = (\<not> isNaN a \<and> \<not> isNaN b \<and> a = b)"

text \<open>
  \<open>Math.min(...xs)\<close> and \<open>Math.max(...xs)\<close>: NaN as soon as one argument is NaN,
  +Infinity (-Infinity) for no argument.
\<close>

definition min2 :: "jsnum \<Rightarrow> jsnum \<Rightarrow> jsnum" where
  "min2 a b = (if isNaN a \<or> isNaN b then NaN else if gt a b then b else a)"

definition max2 :: "jsnum \<Rightarrow> jsnum \<Rightarrow> jsnum" where
  "max2 a b = (if isNaN a \<or> isNaN b then NaN else if gt b a then b else a)"

definition Math_min :: "jsnum list \<Rightarrow> jsnum" where
  "Math_min xs = foldl min2 PInf xs"

definition Math_max :: "jsnum list \<Rightarrow> jsnum" where
  "Math_max xs = foldl max2 NInf xs"

text \<open>
  The values an observation can carry: a number, \<open>undefined\<close>, \<open>null\<close> or a boolean.
  Strings and objects are left out: on them \<open>+\<close> is string concatenation, which needs
  the shortest decimal rendering of a binary64 number.
\<close>

datatype jsval = JUndefined | JNull | JBool bool | JNum jsnum

fun typeof :: "jsval \<Rightarrow> string" where
  "typeof JUndefined = ''undefined''"
| "typeof JNull = ''object''"
| "typeof (JBool _) = ''boolean''"
| "typeof (JNum _) = ''number''"

text \<open>The coercion ToNumber that every arithmetic operator applies to its operands.\<close>

fun toNumber :: "jsval \<Rightarrow> jsnum" where
  "toNumber JUndefined = NaN"
| "toNumber JNull = Fin 0"
| "toNumber (JBool b) = Fin (if b then 1 else 0)"
| "toNumber (JNum n) = n"

text \<open>The global function \<open>isNaN(v)\<close>, which coerces its argument.\<close>

definition global_isNaN :: "jsval \<Rightarrow> bool" where
  "global_isNaN v = isNaN (toNumber v)"

section \<open>Decimal digits\<close>

definition digit_char :: "nat \<Rightarrow> char" where
  "digit_char d = ''0123456789'' ! d"

fun nat_to_digits :: "nat \<Rightarrow> string" where
  "nat_to_digits n =
     (if n < 10 then [digit_char n] else nat_to_digits (n div 10) @ [digit_char (n mod 10)])"

declare nat_to_digits.simps [simp del]

section \<open>DataPoint\<close>

text \<open>
  \<open>timestamp\<close> is the Date as milliseconds; \<open>derived\<close> holds the fields a transformer
  attaches to the object (\<open>normalizedValue\<close> in \<open>main\<close>). The constructor takes the random
  suffix of the id as an argument.
\<close>

record datapoint =
  dp_value :: jsval
  timestamp :: int
  metadata :: "(string \<times> jsval) list"
  dp_id :: string
  derived :: "(string \<times> jsval) list"

text \<open>
  \<open>new DataPoint(value, timestamp, metadata)\<close>; the id is the timestamp in decimal, a
  hyphen and the random suffix.
\<close>

definition int_to_digits :: "int \<Rightarrow> string" where
  "int_to_digits i = (if i < 0 then ''-'' @ nat_to_digits (nat (- i)) else nat_to_digits (nat i))"

definition new_DataPoint :: "jsval \<Rightarrow> int \<Rightarrow> (string \<times> jsval) list \<Rightarrow> string \<Rightarrow> datapoint" where
  "new_DataPoint v ts md suffix =
     \<lparr>dp_value = v, timestamp = ts, metadata = md,
      dp_id = int_to_digits ts @ ''-'' @ suffix, derived = []\<rparr>"

definition isValid :: "datapoint \<Rightarrow> bool" where
  "isValid d = (typeof (dp_value d) = ''number'' \<and> \<not> global_isNaN (dp_value d))"

text \<open>
  The validity invariant in the specification's words: the value is a finite, non-NaN
  number.
\<close>

definition spec_valid :: "jsval \<Rightarrow> bool" where
  "spec_valid v = (case v of JNum n \<Rightarrow> isFinite n \<and> \<not> isNaN n | _ \<Rightarrow> False)"

section \<open>Number formatting and parsing\<close>

text \<open>
  The result of \<open>x.toFixed(2)\<close>. For a finite \<open>x\<close> below \<open>10^21\<close> in magnitude it is
  the decimal string of the integer \<open>n\<close> closest to \<open>100 * |x|\<close> (the larger one on a
  tie) with a point before its last two digits, after a minus sign when \<open>x < 0\<close>. From
  \<open>10^21\<close> on it is the exponent notation of \<open>x\<close>, whose digits depend on the binary64
  representation: \<open>Sci x\<close> stands for that string.
\<close>

datatype numstr = Dec string | Sci real

definition fixed_digits :: "nat \<Rightarrow> string" where
  "fixed_digits n =
     nat_to_digits (n div 100) @ ''.'' @ [digit_char (n mod 100 div 10), digit_char (n mod 10)]"

fun toFixed2 :: "jsnum \<Rightarrow> numstr" where
  "toFixed2 NaN = Dec ''NaN''"
| "toFixed2 PInf = Dec ''Infinity''"
| "toFixed2 NInf = Dec ''-Infinity''"
| "toFixed2 (Fin x) =
     (if 10 ^ 21 \<le> \<bar>x\<bar> then Sci x
      else Dec ((if x < 0 then ''-'' else []) @ fixed_digits (nat \<lfloor>\<bar>x\<bar> * 100 + 1 / 2\<rfloor>)))"

text \<open>
  A string value: plain characters, or the exponent notation of a number followed by
  plain characters. \<open>concat_str\<close> is \<open>s + t\<close> for the result \<open>s\<close> of \<open>toFixed\<close>.
\<close>

datatype jsstring = Chars string | SciThen real string

fun concat_str :: "numstr \<Rightarrow> string \<Rightarrow> jsstring" where
  "concat_str (Dec s) t = Chars (s @ t)"
| "concat_str (Sci x) t = SciThen x t"

text \<open>
  \<open>parseFloat\<close> on the result of \<open>toFixed\<close>: leading blanks, a sign, then \<open>Infinity\<close> or
  the longest prefix of digits with at most one point, read as the binary64 value nearest
  to the decimal; NaN when there is no such prefix. Exponent parts are only parsed for
  \<open>Sci\<close>.
\<close>

definition is_digit :: "char \<Rightarrow> bool" where
  "is_digit c = (c \<in> set ''0123456789'')"

definition digit_val :: "char \<Rightarrow> nat" where
  "digit_val c = (of_char c - 48)"

definition digits_value :: "string \<Rightarrow> nat" where
  "digits_value cs = foldl (\<lambda>a c. 10 * a + digit_val c) 0 cs"

definition parse_unsigned :: "string \<Rightarrow> jsnum" where
  "parse_unsigned s =
     (if take 8 s = ''Infinity'' then PInf
      else let ip = takeWhile is_digit s; r = dropWhile is_digit s in
        (case r of
           c # r' \<Rightarrow>
             (if c = CHR ''.'' then
                (let fp = takeWhile is_digit r' in
                 if ip = [] \<and> fp = [] then NaN
                 else round64 (real (digits_value ip) + real (digits_value fp) / 10 ^ length fp))
              else if ip = [] then NaN else round64 (real (digits_value ip)))
         | [] \<Rightarrow> if ip = [] then NaN else round64 (real (digits_value ip))))"

fun parseFloat :: "numstr \<Rightarrow> jsnum" where
  "parseFloat (Sci x) = Fin x"
| "parseFloat (Dec s) =
     (case dropWhile (\<lambda>c. c = CHR '' '') s of
        [] \<Rightarrow> NaN
      | c # r \<Rightarrow>
          (if c = CHR ''-'' then neg (parse_unsigned r)
           else if c = CHR ''+'' then parse_unsigned r
           else parse_unsigned (c # r)))"

section \<open>Items, errors and events\<close>

text \<open>The record that \<open>AggregationProcessor._calculateStats\<close> returns.\<close>

record agg_stats =
  agg_count :: nat
  agg_sum :: jsnum
  agg_mean :: jsnum
  agg_min :: jsnum
  agg_max :: jsnum
  agg_stdDev :: jsnum
  agg_timestamp :: int

text \<open>
  What flows through a pipeline: \<open>null\<close>, \<open>undefined\<close>, a DataPoint, or the statistics
  record that an AggregationProcessor returns in place of the DataPoint.
\<close>

datatype item = Null | Undefined | Point datapoint | Stats agg_stats

text \<open>The records of \<open>_getHistoryStats\<close> and \<open>_analyzeTrend\<close>.\<close>

record hist_stats =
  hist_mean :: jsnum
  hist_stdDev :: jsnum
  hist_count :: nat

record trend =
  sma :: jsnum
  latest :: jsval
  diff :: jsnum
  diffPercent :: jsstring
  direction :: string
  trend_timestamp :: int

text \<open>
  Thrown values, and the argument of an emitted event. \<open>PError e x n\<close> is the object
  \<open>{ error: e, dataPoint: x, processor: n }\<close>; \<open>ERR_UNHANDLED_ERROR x\<close> is the Error
  that Node's \<open>emit\<close> throws for an \<open>'error'\<close> event nobody listens to, with the event's
  argument \<open>x\<close> as its context.
\<close>

datatype js_error =
    TypeError string
  | Thrown string
  | StreamProcessorError string string
  | ERR_UNHANDLED_ERROR payload
and payload =
    PItem item
  | PAnomaly item hist_stats
  | PTrend trend
  | PError js_error item string
  | PNone

text \<open>
  A listener is an outside subscriber, known by a number, which returns normally and
  leaves the stages alone, or one of the arrow functions of \<open>addProcessor\<close>, which emits
  its argument on the pipeline under the given name.
\<close>

datatype listener = Observer nat | Forward string

text \<open>
  What a call has published, in order: an \<open>emit\<close> of a stage (by its name) or of the
  pipeline, and each call of an outside subscriber.
\<close>

datatype emission =
    StageEmit string string payload
  | PipelineEmit string payload
  | Notify nat string payload

definition listeners_for :: "(string \<times> 'l) list \<Rightarrow> string \<Rightarrow> 'l list" where
  "listeners_for ls k = map snd (filter (\<lambda>e. fst e = k) ls)"

text \<open>
  \<open>EventEmitter.emit\<close> on the pipeline, whose listeners are outside subscribers: an
  \<open>'error'\<close> event without a listener is thrown; otherwise the listeners registered for
  the name run in registration order.
\<close>

definition pipeline_emit ::
  "(string \<times> nat) list \<Rightarrow> string \<Rightarrow> payload \<Rightarrow> js_error option \<times> emission list" where
  "pipeline_emit pl k x =
     (if k = ''error'' \<and> listeners_for pl ''error'' = [] then (Some (ERR_UNHANDLED_ERROR x), [])
      else (None, PipelineEmit k x # map (\<lambda>i. Notify i k x) (listeners_for pl k)))"

text \<open>The listeners of a stage run in order; the first one that throws ends the call.\<close>

fun run_listeners ::
  "(string \<times> nat) list \<Rightarrow> listener list \<Rightarrow> string \<Rightarrow> payload \<Rightarrow> js_error option \<times> emission list" where
  "run_listeners pl [] k x = (None, [])"
| "run_listeners pl (Observer i # ls) k x =
     (case run_listeners pl ls k x of (e, t) \<Rightarrow> (e, Notify i k x # t))"
| "run_listeners pl (Forward k' # ls) k x =
     (case pipeline_emit pl k' x of
        (Some e, t) \<Rightarrow> (Some e, t)
      | (None, t) \<Rightarrow> (case run_listeners pl ls k x of (e, t') \<Rightarrow> (e, t @ t')))"

section \<open>StreamProcessor\<close>

text \<open>
  The base class: the fields of every stage and its listener registry. \<open>process\<close> of the
  base class itself only throws; the five subclasses below override it. The parameter
  \<open>pl\<close> of every function that emits is the listener registry of the pipeline the
  \<open>Forward\<close> listeners belong to.
\<close>

record stream_processor =
  name :: string
  processedCount :: nat
  errorCount :: nat
  listeners :: "(string \<times> listener) list"

definition emit ::
  "(string \<times> nat) list \<Rightarrow> 'a stream_processor_scheme \<Rightarrow> string \<Rightarrow> payload
     \<Rightarrow> js_error option \<times> emission list" where
  "emit pl s k x =
     (if k = ''error'' \<and> listeners_for (listeners s) ''error'' = []
      then (Some (ERR_UNHANDLED_ERROR x), [])
      else (case run_listeners pl (listeners_for (listeners s) k) k x of
              (e, t) \<Rightarrow> (e, StageEmit (name s) k x # t)))"

definition handleError ::
  "(string \<times> nat) list \<Rightarrow> js_error \<Rightarrow> item \<Rightarrow> 'a stream_processor_scheme
     \<Rightarrow> 'a stream_processor_scheme \<times> js_error option \<times> emission list" where
  "handleError pl e x s =
     (let s' = s\<lparr>errorCount := errorCount s + 1\<rparr>
      in (s', emit pl s' ''error'' (PError e x (name s'))))"

text \<open>
  A call of \<open>process\<close> ends in the new state of the stage, the value returned or the
  error thrown, and what was published. \<open>catching\<close> is the \<open>catch\<close> clause that every
  \<open>process\<close> shares: \<open>handleError\<close>, then \<open>return null\<close>; an error thrown by
  \<open>handleError\<close> itself leaves \<open>process\<close>.
\<close>

type_synonym 's outcome = "'s \<times> (js_error + item) \<times> emission list"

definition catching ::
  "(string \<times> nat) list \<Rightarrow> item \<Rightarrow> ('a stream_processor_scheme) outcome
     \<Rightarrow> ('a stream_processor_scheme) outcome" where
  "catching pl x out =
     (case out of
        (s, Inr r, t) \<Rightarrow> (s, Inr r, t)
      | (s, Inl e, t) \<Rightarrow>
          (case handleError pl e x s of
             (s', None, t') \<Rightarrow> (s', Inr Null, t @ t')
           | (s', Some e', t') \<Rightarrow> (s', Inl e', t @ t')))"

text \<open>
  The statement \<open>this.emit(k, x)\<close> inside a \<open>try\<close> block, followed by the rest of the
  block.
\<close>

definition emit_then ::
  "(string \<times> nat) list \<Rightarrow> 'a stream_processor_scheme \<Rightarrow> string \<Rightarrow> payload
     \<Rightarrow> (js_error + item) \<Rightarrow> ('a stream_processor_scheme) outcome" where
  "emit_then pl s k x r =
     (case emit pl s k x of
        (Some e, t) \<Rightarrow> (s, Inl e, t)
      | (None, t) \<Rightarrow> (s, r, t))"

text \<open>Reading the property \<open>value\<close> of an item; it throws on \<open>null\<close> and \<open>undefined\<close>.\<close>

fun read_value :: "item \<Rightarrow> js_error + jsval" where
  "read_value Null = Inl (TypeError ''Cannot read properties of null (reading 'value')'')"
| "read_value Undefined = Inl (TypeError ''Cannot read properties of undefined (reading 'value')'')"
| "read_value (Point d) = Inr (dp_value d)"
| "read_value (Stats s) = Inr JUndefined"

section \<open>FilterProcessor and TransformProcessor\<close>

text \<open>
  The predicate and the transformer are functions of the item alone; each returns or
  throws. The predicate's result is the truthiness of what the function returns.
\<close>

record filter_processor = stream_processor +
  predicate :: "item \<Rightarrow> js_error + bool"
  filteredCount :: nat

definition filter_try :: "(string \<times> nat) list \<Rightarrow> filter_processor \<Rightarrow> item \<Rightarrow> filter_processor outcome" where
  "filter_try pl s x =
     (case predicate s x of
        Inl e \<Rightarrow> (s, Inl e, [])
      | Inr True \<Rightarrow> emit_then pl s ''data'' (PItem x) (Inr x)
      | Inr False \<Rightarrow>
          (let s' = s\<lparr>filteredCount := filteredCount s + 1\<rparr>
           in emit_then pl s' ''filtered'' (PItem x) (Inr Null)))"

definition filter_process :: "(string \<times> nat) list \<Rightarrow> filter_processor \<Rightarrow> item \<Rightarrow> filter_processor outcome" where
  "filter_process pl s x =
     catching pl x (filter_try pl (s\<lparr>processedCount := processedCount s + 1\<rparr>) x)"

record transform_processor = stream_processor +
  transformer :: "item \<Rightarrow> js_error + item"

definition transform_try ::
  "(string \<times> nat) list \<Rightarrow> transform_processor \<Rightarrow> item \<Rightarrow> transform_processor outcome" where
  "transform_try pl s x =
     (case transformer s x of
        Inl e \<Rightarrow> (s, Inl e, [])
      | Inr y \<Rightarrow> emit_then pl s ''data'' (PItem y) (Inr y))"

definition transform_process ::
  "(string \<times> nat) list \<Rightarrow> transform_processor \<Rightarrow> item \<Rightarrow> transform_processor outcome" where
  "transform_process pl s x =
     catching pl x (transform_try pl (s\<lparr>processedCount := processedCount s + 1\<rparr>) x)"

section \<open>Window statistics\<close>

text \<open>
  \<open>xs.reduce((a, b) => a + b, 0)\<close> and
  \<open>xs.reduce((acc, val) => acc + Math.pow(val - mean, 2), 0)\<close>; the operators coerce
  each element to a number.
\<close>

definition reduce_sum :: "jsval list \<Rightarrow> jsnum" where
  "reduce_sum xs = foldl (\<lambda>a b. add a (toNumber b)) (Fin 0) xs"

definition reduce_squares :: "jsnum \<Rightarrow> jsval list \<Rightarrow> jsnum" where
  "reduce_squares m xs = foldl (\<lambda>acc v. add acc (pow2 (sub (toNumber v) m))) (Fin 0) xs"

definition length_js :: "'a list \<Rightarrow> jsnum" where
  "length_js xs = Fin (real (length xs))"

text \<open>\<open>Array.shift\<close> after \<open>push\<close>, when the array has grown past the bound.\<close>

definition shift :: "'a list \<Rightarrow> 'a list" where
  "shift xs = tl xs"

section \<open>AggregationProcessor\<close>

record aggregation_processor = stream_processor +
  windowSize :: jsnum
  window :: "item list"

text \<open>\<open>this.window.map(dp => dp.value)\<close>: the first item without properties throws.\<close>

fun map_value :: "item list \<Rightarrow> js_error + jsval list" where
  "map_value [] = Inr []"
| "map_value (x # xs) =
     (case read_value x of
        Inl e \<Rightarrow> Inl e
      | Inr v \<Rightarrow> (case map_value xs of Inl e \<Rightarrow> Inl e | Inr vs \<Rightarrow> Inr (v # vs)))"

definition calculateStats :: "int \<Rightarrow> item list \<Rightarrow> js_error + agg_stats" where
  "calculateStats now w =
     (case map_value w of
        Inl e \<Rightarrow> Inl e
      | Inr vals \<Rightarrow>
          (let sum = reduce_sum vals;
               mean = divide_js sum (length_js vals);
               variance = divide_js (reduce_squares mean vals) (length_js vals);
               stdDev = sqrt_js variance
           in Inr \<lparr>agg_count = length vals, agg_sum = sum, agg_mean = mean,
                    agg_min = Math_min (map toNumber vals), agg_max = Math_max (map toNumber vals),
                    agg_stdDev = stdDev, agg_timestamp = now\<rparr>))"

definition aggregation_try ::
  "(string \<times> nat) list \<Rightarrow> int \<Rightarrow> aggregation_processor \<Rightarrow> item
     \<Rightarrow> aggregation_processor outcome" where
  "aggregation_try pl now s x =
     (let w = window s @ [x];
          s1 = s\<lparr>window := (if gt (length_js w) (windowSize s) then shift w else w)\<rparr>
      in case calculateStats now (window s1) of
           Inl e \<Rightarrow> (s1, Inl e, [])
         | Inr stats \<Rightarrow> emit_then pl s1 ''aggregation'' (PItem (Stats stats)) (Inr (Stats stats)))"

definition aggregation_process ::
  "(string \<times> nat) list \<Rightarrow> int \<Rightarrow> aggregation_processor \<Rightarrow> item
     \<Rightarrow> aggregation_processor outcome" where
  "aggregation_process pl now s x =
     catching pl x (aggregation_try pl now (s\<lparr>processedCount := processedCount s + 1\<rparr>) x)"

section \<open>AnomalyDetector\<close>

record anomaly_detector = stream_processor +
  threshold :: jsnum
  history :: "jsval list"
  historySize :: nat
  anomalyCount :: nat

definition getHistoryStats :: "anomaly_detector \<Rightarrow> hist_stats" where
  "getHistoryStats s =
     (let mean = divide_js (reduce_sum (history s)) (length_js (history s));
          variance = divide_js (reduce_squares mean (history s)) (length_js (history s));
          stdDev = sqrt_js variance
      in \<lparr>hist_mean = mean, hist_stdDev = stdDev, hist_count = length (history s)\<rparr>)"

definition detectAnomaly :: "anomaly_detector \<Rightarrow> jsval \<Rightarrow> bool" where
  "detectAnomaly s v =
     (let stats = getHistoryStats s in
      if strict_eq (hist_stdDev stats) (Fin 0) then False
      else (let zScore = abs_js (divide_js (sub (toNumber v) (hist_mean stats)) (hist_stdDev stats))
            in gt zScore (threshold s)))"

text \<open>
  The \<open>console.log\<close> of a detected anomaly prints nothing in the model, but its argument
  calls \<open>dataPoint.value.toFixed(2)\<close>, which throws when the value is not a number.
\<close>

fun log_anomaly :: "jsval \<Rightarrow> js_error option" where
  "log_anomaly (JNum n) = None"
| "log_anomaly JNull = Some (TypeError ''Cannot read properties of null (reading 'toFixed')'')"
| "log_anomaly JUndefined =
     Some (TypeError ''Cannot read properties of undefined (reading 'toFixed')'')"
| "log_anomaly (JBool b) = Some (TypeError ''dataPoint.value.toFixed is not a function'')"

definition anomaly_try ::
  "(string \<times> nat) list \<Rightarrow> anomaly_detector \<Rightarrow> item \<Rightarrow> anomaly_detector outcome" where
  "anomaly_try pl s x =
     (case read_value x of
        Inl e \<Rightarrow> (s, Inl e, [])
      | Inr v \<Rightarrow>
          (let h = history s @ [v];
               s1 = s\<lparr>history := (if historySize s < length h then shift h else h)\<rparr>
           in if 10 \<le> length (history s1) \<and> detectAnomaly s1 v then
                (let s2 = s1\<lparr>anomalyCount := anomalyCount s1 + 1\<rparr> in
                 case emit pl s2 ''anomaly'' (PAnomaly x (getHistoryStats s2)) of
                   (Some e, t) \<Rightarrow> (s2, Inl e, t)
                 | (None, t) \<Rightarrow>
                     (case log_anomaly v of
                        Some e \<Rightarrow> (s2, Inl e, t)
                      | None \<Rightarrow>
                          (case emit_then pl s2 ''data'' (PItem x) (Inr x) of
                             (s3, r, t') \<Rightarrow> (s3, r, t @ t'))))
              else emit_then pl s1 ''data'' (PItem x) (Inr x)))"

definition anomaly_process ::
  "(string \<times> nat) list \<Rightarrow> anomaly_detector \<Rightarrow> item \<Rightarrow> anomaly_detector outcome" where
  "anomaly_process pl s x =
     catching pl x (anomaly_try pl (s\<lparr>processedCount := processedCount s + 1\<rparr>) x)"

section \<open>TrendAnalyzer\<close>

record trend_analyzer = stream_processor +
  trendWindowSize :: jsnum
  values_buf :: "jsval list"

definition analyzeTrend :: "int \<Rightarrow> jsval list \<Rightarrow> trend" where
  "analyzeTrend now vals =
     (let sma_v = divide_js (reduce_sum vals) (length_js vals);
          latest_v = (if vals = [] then JUndefined else last vals);
          diff_v = sub (toNumber latest_v) sma_v;
          diffPercent_v = toFixed2 (mul (divide_js diff_v sma_v) (Fin 100));
          direction_v =
            (if gt (abs_js (parseFloat diffPercent_v)) (Fin 5)
             then (if gt diff_v (Fin 0) then ''upward'' else ''downward'')
             else ''stable'')
      in \<lparr>sma = sma_v, latest = latest_v, diff = diff_v,
           diffPercent = concat_str diffPercent_v ''%'', direction = direction_v,
           trend_timestamp = now\<rparr>)"

definition trend_try ::
  "(string \<times> nat) list \<Rightarrow> int \<Rightarrow> trend_analyzer \<Rightarrow> item \<Rightarrow> trend_analyzer outcome" where
  "trend_try pl now s x =
     (case read_value x of
        Inl e \<Rightarrow> (s, Inl e, [])
      | Inr v \<Rightarrow>
          (let vs = values_buf s @ [v];
               s1 = s\<lparr>values_buf := (if gt (length_js vs) (trendWindowSize s) then shift vs else vs)\<rparr>
           in if 5 \<le> length (values_buf s1) then
                (case emit pl s1 ''trend'' (PTrend (analyzeTrend now (values_buf s1))) of
                   (Some e, t) \<Rightarrow> (s1, Inl e, t)
                 | (None, t) \<Rightarrow>
                     (case emit_then pl s1 ''data'' (PItem x) (Inr x) of
                        (s2, r, t') \<Rightarrow> (s2, r, t @ t')))
              else emit_then pl s1 ''data'' (PItem x) (Inr x)))"

definition trend_process ::
  "(string \<times> nat) list \<Rightarrow> int \<Rightarrow> trend_analyzer \<Rightarrow> item \<Rightarrow> trend_analyzer outcome" where
  "trend_process pl now s x =
     catching pl x (trend_try pl now (s\<lparr>processedCount := processedCount s + 1\<rparr>) x)"

section \<open>Constructors\<close>

text \<open>An omitted argument (\<open>None\<close>) takes the default of the parameter list.\<close>

definition new_FilterProcessor :: "string \<Rightarrow> (item \<Rightarrow> js_error + bool) \<Rightarrow> filter_processor" where
  "new_FilterProcessor n p =
     \<lparr>name = n, processedCount = 0, errorCount = 0, listeners = [],
      predicate = p, filteredCount = 0\<rparr>"

definition new_TransformProcessor :: "string \<Rightarrow> (item \<Rightarrow> js_error + item) \<Rightarrow> transform_processor" where
  "new_TransformProcessor n f =
     \<lparr>name = n, processedCount = 0, errorCount = 0, listeners = [], transformer = f\<rparr>"

definition new_AggregationProcessor :: "string \<Rightarrow> jsnum option \<Rightarrow> aggregation_processor" where
  "new_AggregationProcessor n ws =
     \<lparr>name = n, processedCount = 0, errorCount = 0, listeners = [],
      windowSize = (case ws of None \<Rightarrow> Fin 10 | Some w \<Rightarrow> w), window = []\<rparr>"

definition new_AnomalyDetector :: "string \<Rightarrow> jsnum option \<Rightarrow> anomaly_detector" where
  "new_AnomalyDetector n th =
     \<lparr>name = n, processedCount = 0, errorCount = 0, listeners = [],
      threshold = (case th of None \<Rightarrow> Fin 3 | Some t \<Rightarrow> t), history = [],
      historySize = 50, anomalyCount = 0\<rparr>"

definition new_TrendAnalyzer :: "string \<Rightarrow> jsnum option \<Rightarrow> trend_analyzer" where
  "new_TrendAnalyzer n ws =
     \<lparr>name = n, processedCount = 0, errorCount = 0, listeners = [],
      trendWindowSize = (case ws of None \<Rightarrow> Fin 20 | Some w \<Rightarrow> w), values_buf = []\<rparr>"

section \<open>Statistics snapshots\<close>

text \<open>
  \<open>getStats\<close> returns an object literal: its properties in order, each a number or a
  string.
\<close>

datatype field = FNum jsnum | FStr jsstring

text \<open>
  A counter that \<open>++\<close> has incremented \<open>n\<close> times from 0: at \<open>2^53\<close> the increment
  rounds back and the number stays.
\<close>

definition count_js :: "nat \<Rightarrow> jsnum" where
  "count_js n = Fin (real (min n (2 ^ 53)))"

definition getStats :: "'a stream_processor_scheme \<Rightarrow> (string \<times> field) list" where
  "getStats s =
     [(''name'', FStr (Chars (name s))),
      (''processed'', FNum (count_js (processedCount s))),
      (''errors'', FNum (count_js (errorCount s)))]"

definition filter_getStats :: "filter_processor \<Rightarrow> (string \<times> field) list" where
  "filter_getStats s = getStats s @ [(''filtered'', FNum (count_js (filteredCount s)))]"

definition anomaly_getStats :: "anomaly_detector \<Rightarrow> (string \<times> field) list" where
  "anomaly_getStats s =
     getStats s @
     [(''anomalies'', FNum (count_js (anomalyCount s))),
      (''anomalyRate'',
         FStr (concat_str
           (toFixed2 (mul (divide_js (count_js (anomalyCount s)) (count_js (processedCount s)))
                          (Fin 100)))
           ''%''))]"

section \<open>Stages and the pipeline\<close>

datatype stage =
    SFilter filter_processor
  | STransform transform_processor
  | SAggregation aggregation_processor
  | SAnomaly anomaly_detector
  | STrend trend_analyzer

fun process :: "(string \<times> nat) list \<Rightarrow> int \<Rightarrow> stage \<Rightarrow> item \<Rightarrow> stage outcome" where
  "process pl now (SFilter s) x =
     (case filter_process pl s x of (s', r, t) \<Rightarrow> (SFilter s', r, t))"
| "process pl now (STransform s) x =
     (case transform_process pl s x of (s', r, t) \<Rightarrow> (STransform s', r, t))"
| "process pl now (SAggregation s) x =
     (case aggregation_process pl now s x of (s', r, t) \<Rightarrow> (SAggregation s', r, t))"
| "process pl now (SAnomaly s) x =
     (case anomaly_process pl s x of (s', r, t) \<Rightarrow> (SAnomaly s', r, t))"
| "process pl now (STrend s) x =
     (case trend_process pl now s x of (s', r, t) \<Rightarrow> (STrend s', r, t))"

fun stage_getStats :: "stage \<Rightarrow> (string \<times> field) list" where
  "stage_getStats (SFilter s) = filter_getStats s"
| "stage_getStats (STransform s) = getStats s"
| "stage_getStats (SAggregation s) = getStats s"
| "stage_getStats (SAnomaly s) = anomaly_getStats s"
| "stage_getStats (STrend s) = getStats s"

text \<open>The fields of the base class, read through the variant.\<close>

fun stage_name :: "stage \<Rightarrow> string" where
  "stage_name (SFilter s) = name s"
| "stage_name (STransform s) = name s"
| "stage_name (SAggregation s) = name s"
| "stage_name (SAnomaly s) = name s"
| "stage_name (STrend s) = name s"

fun stage_processed :: "stage \<Rightarrow> nat" where
  "stage_processed (SFilter s) = processedCount s"
| "stage_processed (STransform s) = processedCount s"
| "stage_processed (SAggregation s) = processedCount s"
| "stage_processed (SAnomaly s) = processedCount s"
| "stage_processed (STrend s) = processedCount s"

fun stage_errors :: "stage \<Rightarrow> nat" where
  "stage_errors (SFilter s) = errorCount s"
| "stage_errors (STransform s) = errorCount s"
| "stage_errors (SAggregation s) = errorCount s"
| "stage_errors (SAnomaly s) = errorCount s"
| "stage_errors (STrend s) = errorCount s"

fun stage_listeners :: "stage \<Rightarrow> (string \<times> listener) list" where
  "stage_listeners (SFilter s) = listeners s"
| "stage_listeners (STransform s) = listeners s"
| "stage_listeners (SAggregation s) = listeners s"
| "stage_listeners (SAnomaly s) = listeners s"
| "stage_listeners (STrend s) = listeners s"

text \<open>\<open>emitter.on(k, l)\<close> appends the listener to the registry.\<close>

definition on :: "string \<Rightarrow> listener \<Rightarrow> 'a stream_processor_scheme \<Rightarrow> 'a stream_processor_scheme" where
  "on k l s = s\<lparr>listeners := listeners s @ [(k, l)]\<rparr>"

fun stage_on :: "string \<Rightarrow> listener \<Rightarrow> stage \<Rightarrow> stage" where
  "stage_on k l (SFilter s) = SFilter (on k l s)"
| "stage_on k l (STransform s) = STransform (on k l s)"
| "stage_on k l (SAggregation s) = SAggregation (on k l s)"
| "stage_on k l (SAnomaly s) = SAnomaly (on k l s)"
| "stage_on k l (STrend s) = STrend (on k l s)"

text \<open>\<open>this.emit(k, x)\<close> of a stage, through the variant.\<close>

fun stage_emit ::
  "(string \<times> nat) list \<Rightarrow> stage \<Rightarrow> string \<Rightarrow> payload \<Rightarrow> js_error option \<times> emission list" where
  "stage_emit pl (SFilter s) k x = emit pl s k x"
| "stage_emit pl (STransform s) k x = emit pl s k x"
| "stage_emit pl (SAggregation s) k x = emit pl s k x"
| "stage_emit pl (SAnomaly s) k x = emit pl s k x"
| "stage_emit pl (STrend s) k x = emit pl s k x"

text \<open>
  The pipeline holds its stages by value: a stage object is added to one pipeline, once,
  and is processed only through it.
\<close>

record pipeline =
  processors :: "stage list"
  isRunning :: bool
  pipeline_listeners :: "(string \<times> nat) list"

definition new_DataStreamPipeline :: pipeline where
  "new_DataStreamPipeline = \<lparr>processors = [], isRunning = False, pipeline_listeners = []\<rparr>"

definition pipeline_on :: "string \<Rightarrow> nat \<Rightarrow> pipeline \<Rightarrow> pipeline" where
  "pipeline_on k i p = p\<lparr>pipeline_listeners := pipeline_listeners p @ [(k, i)]\<rparr>"

definition addProcessor :: "stage \<Rightarrow> pipeline \<Rightarrow> pipeline" where
  "addProcessor s p =
     p\<lparr>processors := processors p @
        [stage_on ''aggregation'' (Forward ''aggregation'')
          (stage_on ''trend'' (Forward ''trend'')
            (stage_on ''anomaly'' (Forward ''anomaly'')
              (stage_on ''error'' (Forward ''processorError'') s)))]\<rparr>"

text \<open>
  The loop of \<open>push\<close> over the stages: it stops at the first \<open>null\<close>, and an error that
  leaves a stage's \<open>process\<close> leaves the loop.
\<close>

fun run_stages ::
  "(string \<times> nat) list \<Rightarrow> int \<Rightarrow> stage list \<Rightarrow> item
     \<Rightarrow> stage list \<times> (js_error + item) \<times> emission list" where
  "run_stages pl now [] cur = ([], Inr cur, [])"
| "run_stages pl now (s # ss) cur =
     (if cur = Null then (s # ss, Inr cur, [])
      else (case process pl now s cur of
              (s', Inl e, t) \<Rightarrow> (s' # ss, Inl e, t)
            | (s', Inr y, t) \<Rightarrow>
                (case run_stages pl now ss y of (ss', r, t') \<Rightarrow> (s' # ss', r, t @ t'))))"

definition push :: "int \<Rightarrow> pipeline \<Rightarrow> item \<Rightarrow> pipeline \<times> (js_error + item) \<times> emission list" where
  "push now p x =
     (if \<not> isRunning p
      then (p, Inl (StreamProcessorError ''Pipeline is not running'' ''NOT_RUNNING''), [])
      else (case run_stages (pipeline_listeners p) now (processors p) x of
              (ss, Inl e, t) \<Rightarrow> (p\<lparr>processors := ss\<rparr>, Inl e, t)
            | (ss, Inr cur, t) \<Rightarrow>
                (case pipeline_emit (pipeline_listeners p) ''processed'' (PItem cur) of
                   (Some e, t') \<Rightarrow> (p\<lparr>processors := ss\<rparr>, Inl e, t @ t')
                 | (None, t') \<Rightarrow> (p\<lparr>processors := ss\<rparr>, Inr cur, t @ t'))))"

definition start :: "pipeline \<Rightarrow> pipeline \<times> js_error option \<times> emission list" where
  "start p =
     (let p' = p\<lparr>isRunning := True\<rparr>
      in (p', pipeline_emit (pipeline_listeners p') ''start'' PNone))"

definition stop :: "pipeline \<Rightarrow> pipeline \<times> js_error option \<times> emission list" where
  "stop p =
     (let p' = p\<lparr>isRunning := False\<rparr>
      in (p', pipeline_emit (pipeline_listeners p') ''stop'' PNone))"

definition pipeline_getStats :: "pipeline \<Rightarrow> (string \<times> field) list list" where
  "pipeline_getStats p = map stage_getStats (processors p)"

section \<open>Notions used by the properties\<close>

text \<open>The names of the events that stages themselves have emitted, in order.\<close>

fun stage_kinds :: "emission list \<Rightarrow> string list" where
  "stage_kinds [] = []"
| "stage_kinds (StageEmit n k x # t) = k # stage_kinds t"
| "stage_kinds (PipelineEmit k x # t) = stage_kinds t"
| "stage_kinds (Notify i k x # t) = stage_kinds t"

text \<open>The events emitted on the pipeline's own emitter, in order.\<close>

fun pipeline_events :: "emission list \<Rightarrow> (string \<times> payload) list" where
  "pipeline_events [] = []"
| "pipeline_events (StageEmit n k x # t) = pipeline_events t"
| "pipeline_events (PipelineEmit k x # t) = (k, x) # pipeline_events t"
| "pipeline_events (Notify i k x # t) = pipeline_events t"

text \<open>
  A listener that cannot throw: an outside subscriber, or a forwarder to a pipeline event
  other than \<open>'error'\<close>. A registry is error-safe when it has a listener for \<open>'error'\<close>
  and none of its listeners can throw; \<open>addProcessor\<close> makes the registry of a stage
  with outside subscribers only error-safe.
\<close>

fun quiet :: "listener \<Rightarrow> bool" where
  "quiet (Observer i) = True"
| "quiet (Forward k) = (k \<noteq> ''error'')"

definition error_safe :: "(string \<times> listener) list \<Rightarrow> bool" where
  "error_safe ls = (listeners_for ls ''error'' \<noteq> [] \<and> list_all (\<lambda>e. quiet (snd e)) ls)"

fun is_observer :: "listener \<Rightarrow> bool" where
  "is_observer (Observer i) = True"
| "is_observer (Forward k) = False"

text \<open>
  The \<open>try\<close> block of \<open>process\<close>, entered after \<open>this.processedCount++\<close>: its result is
  an error exactly when the stage's own logic (or a listener) has thrown.
\<close>

fun try_block :: "(string \<times> nat) list \<Rightarrow> int \<Rightarrow> stage \<Rightarrow> item \<Rightarrow> stage outcome" where
  "try_block pl now (SFilter s) x =
     (case filter_try pl (s\<lparr>processedCount := processedCount s + 1\<rparr>) x of
        (s', r, t) \<Rightarrow> (SFilter s', r, t))"
| "try_block pl now (STransform s) x =
     (case transform_try pl (s\<lparr>processedCount := processedCount s + 1\<rparr>) x of
        (s', r, t) \<Rightarrow> (STransform s', r, t))"
| "try_block pl now (SAggregation s) x =
     (case aggregation_try pl now (s\<lparr>processedCount := processedCount s + 1\<rparr>) x of
        (s', r, t) \<Rightarrow> (SAggregation s', r, t))"
| "try_block pl now (SAnomaly s) x =
     (case anomaly_try pl (s\<lparr>processedCount := processedCount s + 1\<rparr>) x of
        (s', r, t) \<Rightarrow> (SAnomaly s', r, t))"
| "try_block pl now (STrend s) x =
     (case trend_try pl now (s\<lparr>processedCount := processedCount s + 1\<rparr>) x of
        (s', r, t) \<Rightarrow> (STrend s', r, t))"

text \<open>
  The names under which the listeners that \<open>addProcessor\<close> registers re-emit an event
  of name \<open>k\<close> on the pipeline.
\<close>

definition bubbled_as :: "string \<Rightarrow> string list" where
  "bubbled_as k =
     (if k = ''error'' then [''processorError'']
      else if k = ''anomaly'' \<or> k = ''trend'' \<or> k = ''aggregation'' then [k] else [])"

definition pipeline_safe :: "pipeline \<Rightarrow> bool" where
  "pipeline_safe p = list_all (\<lambda>s. error_safe (stage_listeners s)) (processors p)"


text \<open>\<open>this.errorCount++\<close> of \<open>handleError\<close>, through the variant.\<close>

fun count_error :: "stage \<Rightarrow> stage" where
  "count_error (SFilter s) = SFilter (s\<lparr>errorCount := errorCount s + 1\<rparr>)"
| "count_error (STransform s) = STransform (s\<lparr>errorCount := errorCount s + 1\<rparr>)"
| "count_error (SAggregation s) = SAggregation (s\<lparr>errorCount := errorCount s + 1\<rparr>)"
| "count_error (SAnomaly s) = SAnomaly (s\<lparr>errorCount := errorCount s + 1\<rparr>)"
| "count_error (STrend s) = STrend (s\<lparr>errorCount := errorCount s + 1\<rparr>)"

text \<open>
  The number that \<open>parseFloat(x.toFixed(2))\<close> denotes: the binary64 value nearest to
  \<open>x\<close> rounded to two decimals, ties away from zero; \<open>x\<close> itself from \<open>10^21\<close> on and
  for the special values.
\<close>

fun round2 :: "jsnum \<Rightarrow> jsnum" where
  "round2 (Fin x) =
     (if 10 ^ 21 \<le> \<bar>x\<bar> then Fin x
      else round64 (sgn x * real_of_int \<lfloor>\<bar>x\<bar> * 100 + 1 / 2\<rfloor> / 100))"
| "round2 n = n"

text \<open>The number that \<open>_analyzeTrend\<close> formats as \<open>diffPercent\<close>: \<open>diff / sma * 100\<close>.\<close>

definition diffPercent_raw :: "trend \<Rightarrow> jsnum" where
  "diffPercent_raw t = mul (divide_js (diff t) (sma t)) (Fin 100)"

text \<open>Inputs of the examples.\<close>

definition sample_point :: "real \<Rightarrow> item" where
  "sample_point v =
     Point \<lparr>dp_value = JNum (Fin v), timestamp = 0, metadata = [], dp_id = ''0-a'', derived = []\<rparr>"

definition always_faults :: "item \<Rightarrow> js_error + item" where
  "always_faults x = Inl (Thrown ''boom'')"


definition numbers :: "real list \<Rightarrow> jsval list" where
  "numbers rs = map (\<lambda>r. JNum (Fin r)) rs"

text \<open>A running pipeline with a subscriber to \<open>'stop'\<close> and a detector that has seen two values.\<close>

definition sample_pipeline :: pipeline where
  "sample_pipeline =
     \<lparr>processors =
        [SAnomaly ((new_AnomalyDetector ''d'' None)
           \<lparr>processedCount := 2, history := [JNum (Fin 1), JNum (Fin 2)]\<rparr>)],
      isRunning = True, pipeline_listeners = [(''stop'', 7)]\<rparr>"

text \<open>
  A pipeline with one detector, not started, and a started pipeline whose first stage
  rejects every item.
\<close>

definition detector_pipeline :: pipeline where
  "detector_pipeline =
     addProcessor (SAnomaly (new_AnomalyDetector ''d'' None)) new_DataStreamPipeline"

definition reject_all :: "item \<Rightarrow> js_error + bool" where
  "reject_all x = Inr False"

definition filter_then_detector :: pipeline where
  "filter_then_detector =
     fst (start
       (addProcessor (SAnomaly (new_AnomalyDetector ''d'' None))
         (addProcessor (SFilter (new_FilterProcessor ''f'' reject_all)) new_DataStreamPipeline)))"

text \<open>
  A pipeline with a subscriber to \<open>'trend'\<close>, and a TrendAnalyzer with a subscriber of
  its own.
\<close>

definition trend_pipeline :: pipeline where
  "trend_pipeline = pipeline_on ''trend'' 5 new_DataStreamPipeline"

definition watched_trend :: stage where
  "watched_trend = STrend (on ''trend'' (Observer 3) (new_TrendAnalyzer ''t'' None))"

text \<open>
  A started pipeline whose only stage is a transformer that always throws, and the
  predicate of the filter in \<open>main\<close>, \<open>dp => dp.isValid()\<close>.
\<close>

definition faulty_pipeline :: pipeline where
  "faulty_pipeline =
     fst (start (addProcessor (STransform (new_TransformProcessor ''t'' always_faults))
                  new_DataStreamPipeline))"

fun valid_predicate :: "item \<Rightarrow> js_error + bool" where
  "valid_predicate Null = Inl (TypeError ''Cannot read properties of null (reading 'isValid')'')"
| "valid_predicate Undefined =
     Inl (TypeError ''Cannot read properties of undefined (reading 'isValid')'')"
| "valid_predicate (Point d) = Inr (isValid d)"
| "valid_predicate (Stats s) = Inl (TypeError ''dp.isValid is not a function'')"

definition valid_filter_pipeline :: pipeline where
  "valid_filter_pipeline =
     addProcessor (SFilter (new_FilterProcessor ''f'' valid_predicate)) new_DataStreamPipeline"


section \<open>Rounding to binary64\<close>

text \<open>
  How \<open>round64\<close> is evaluated: a magnitude in \<open>[2^k, 2^(k + 1))\<close> rounds to the multiple
  \<open>n * 2^(k - 52)\<close> it is nearest to. Integers below \<open>2^53\<close> in magnitude are binary64
  values, rounding is odd in its argument and changes a normal number by at most one part
  in \<open>2^53\<close>.
\<close>

lemma pow2i_powr: "pow2i e = 2 powr (of_int e)"
  by (simp add: pow2i_def powr_int)

lemma pow2i_pos: "0 < pow2i e"
  by (simp add: pow2i_def)

lemma floor_log2_eq:
  assumes "pow2i k \<le> \<bar>x\<bar>" and "\<bar>x\<bar> < pow2i (k + 1)"
  shows "\<lfloor>log 2 \<bar>x\<bar>\<rfloor> = k"
proof -
  have "0 < \<bar>x\<bar>" using assms(1) pow2i_pos [of k] by linarith
  then show ?thesis
    using assms by (simp add: floor_log_eq_powr_iff pow2i_powr)
qed

lemma round_half_even_near:
  assumes "\<bar>q - of_int n\<bar> < 1 / 2"
  shows "round_half_even q = n"
proof (cases "of_int n \<le> q")
  case True
  then have "\<lfloor>q\<rfloor> = n" using assms unfolding floor_eq_iff by linarith
  then show ?thesis using assms True by (simp add: round_half_even_def Let_def)
next
  case False
  then have f: "\<lfloor>q\<rfloor> = n - 1" using assms unfolding floor_eq_iff by simp
  have "1 / 2 < q - of_int (n - 1)" using assms False by simp
  then show ?thesis using f by (simp add: round_half_even_def Let_def)
qed

lemma round_half_even_minus: "round_half_even (- q) = - round_half_even q"
proof (cases "q = of_int \<lfloor>q\<rfloor>")
  case True
  then obtain i where q: "q = of_int i" ..
  show ?thesis unfolding q by (simp add: round_half_even_def Let_def flip: of_int_minus)
next
  case False
  then have lt: "of_int \<lfloor>q\<rfloor> < q" using of_int_floor_le [of q] by linarith
  have f: "\<lfloor>- q\<rfloor> = - \<lfloor>q\<rfloor> - 1"
    using lt of_int_floor_le [of q] floor_correct [of q] unfolding floor_eq_iff [of "- q"] by simp linarith
  show ?thesis
    using lt by (auto simp add: round_half_even_def Let_def f)
qed

lemma quantum_exp_minus: "quantum_exp (- x) = quantum_exp x"
  by (simp add: quantum_exp_def)

lemma round64_minus: "round64 (- x) = neg (round64 x)"
  by (simp add: round64_def Let_def quantum_exp_minus round_half_even_minus)

lemma round_half_even_nearest:
  assumes "\<bar>q - of_int n\<bar> < 1 / 2 \<or> (\<bar>q - of_int n\<bar> = 1 / 2 \<and> even n)"
  shows "round_half_even q = n"
proof (cases "\<bar>q - of_int n\<bar> < 1 / 2")
  case True
  then show ?thesis by (rule round_half_even_near)
next
  case False
  then have h: "\<bar>q - of_int n\<bar> = 1 / 2" and e: "even n" using assms by auto
  show ?thesis
  proof (cases "of_int n \<le> q")
    case True
    then have q: "q = of_int n + 1 / 2" using h by linarith
    have "\<lfloor>q\<rfloor> = n" unfolding floor_eq_iff q by simp
    then show ?thesis using e by (simp add: round_half_even_def Let_def q)
  next
    case False
    then have q: "q = of_int (n - 1) + 1 / 2" using h by simp
    have "\<lfloor>q\<rfloor> = n - 1" unfolding floor_eq_iff q by simp
    then show ?thesis using e by (simp add: round_half_even_def Let_def q)
  qed
qed

lemma round64_nearestI:
  assumes "pow2i k \<le> \<bar>x\<bar>" and "\<bar>x\<bar> < pow2i (k + 1)" and "- 1022 \<le> k"
    and "\<bar>x / pow2i (k - 52) - of_int n\<bar> < 1 / 2
           \<or> (\<bar>x / pow2i (k - 52) - of_int n\<bar> = 1 / 2 \<and> even n)"
    and "y = of_int n * pow2i (k - 52)"
    and "\<bar>y\<bar> < 2 ^ 1024"
  shows "round64 x = Fin y"
proof -
  have nz: "x \<noteq> 0" using assms(1) pow2i_pos [of k] by auto
  have "quantum_exp x = k - 52"
    using floor_log2_eq [OF assms(1,2)] assms(3) by (simp add: quantum_exp_def)
  moreover have "round_half_even (x / pow2i (k - 52)) = n"
    using assms(4) by (rule round_half_even_nearest)
  ultimately show ?thesis
    using nz assms(5,6) by (simp add: round64_def Let_def)
qed

lemma round64_zero [simp]: "round64 0 = Fin 0"
  by (simp add: round64_def)

lemma pow2i_nonpos: "e \<le> 0 \<Longrightarrow> pow2i e = 1 / 2 ^ nat (- e)"
  by (cases "e = 0") (simp_all add: pow2i_def)

lemma round64_of_int:
  assumes "\<bar>i\<bar> < 2 ^ 53"
  shows "round64 (of_int i) = Fin (of_int i)"
proof (cases "i = 0")
  case True
  then show ?thesis by simp
next
  case False
  define x :: real where "x = of_int i"
  define k where "k = \<lfloor>log 2 \<bar>x\<bar>\<rfloor>"
  have x1: "1 \<le> \<bar>x\<bar>" using False unfolding x_def by (simp flip: of_int_abs)
  have x53: "\<bar>x\<bar> < 2 ^ 53" using assms unfolding x_def
    by (metis of_int_abs of_int_less_numeral_power_cancel_iff)
  have bounds: "2 powr (of_int k) \<le> \<bar>x\<bar> \<and> \<bar>x\<bar> < 2 powr (of_int (k + 1))"
    using x1 floor_log_eq_powr_iff [of "\<bar>x\<bar>" 2 k] unfolding k_def by simp
  have k0: "0 \<le> k" unfolding k_def using x1 by simp
  have "log 2 \<bar>x\<bar> < 53" using x1 x53 by (simp add: log_less_iff)
  then have k52: "k \<le> 52" unfolding k_def by linarith
  define m where "m = nat (52 - k)"
  have p: "pow2i (k - 52) = 1 / 2 ^ m"
    using k52 by (simp add: pow2i_nonpos m_def)
  have "round64 x = Fin x"
  proof (rule round64_nearestI [where k = k and n = "i * 2 ^ m"])
    show "pow2i k \<le> \<bar>x\<bar>" using bounds by (simp add: pow2i_powr)
    show "\<bar>x\<bar> < pow2i (k + 1)" using bounds by (simp add: pow2i_powr)
    show "- 1022 \<le> k" using k0 by simp
    show "\<bar>x / pow2i (k - 52) - of_int (i * 2 ^ m)\<bar> < 1 / 2
           \<or> (\<bar>x / pow2i (k - 52) - of_int (i * 2 ^ m)\<bar> = 1 / 2 \<and> even (i * 2 ^ m))"
      by (simp add: p x_def)
    show "x = of_int (i * 2 ^ m) * pow2i (k - 52)" by (simp add: p x_def)
    have "(2::real) ^ 53 \<le> 2 ^ 1024" by (rule power_increasing) simp_all
    then show "\<bar>x\<bar> < 2 ^ 1024" using x53 by linarith
  qed
  then show ?thesis by (simp add: x_def)
qed

lemma round64_numeral [simp]:
  "(numeral w :: int) < 2 ^ 53 \<Longrightarrow> round64 (numeral w) = Fin (numeral w)"
  using round64_of_int [of "numeral w"] by simp

lemma round64_neg_numeral [simp]:
  "(numeral w :: int) < 2 ^ 53 \<Longrightarrow> round64 (- numeral w) = Fin (- numeral w)"
  using round64_of_int [of "- numeral w"] by simp

lemma round64_one [simp]: "round64 1 = Fin 1"
  using round64_of_int [of 1] by simp

lemma round64_neg_one [simp]: "round64 (- 1) = Fin (- 1)"
  using round64_of_int [of "- 1"] by simp

lemma round_half_even_error: "\<bar>of_int (round_half_even q) - q\<bar> \<le> 1 / 2"
  unfolding round_half_even_def Let_def
  using of_int_floor_le [of q] floor_correct [of q] by (auto simp add: abs_le_iff)

lemma quantum_normal:
  assumes "pow2i (- 1022) \<le> \<bar>x\<bar>"
  shows "pow2i (quantum_exp x) \<le> \<bar>x\<bar> / 2 ^ 52"
proof -
  have pos: "0 < \<bar>x\<bar>" using assms pow2i_pos [of "- 1022"] by linarith
  define k where "k = \<lfloor>log 2 \<bar>x\<bar>\<rfloor>"
  have "of_int (- 1022) \<le> log 2 \<bar>x\<bar>"
    using assms pos by (simp add: le_log_iff pow2i_powr del: of_int_minus)
  then have k: "- 1022 \<le> k" unfolding k_def by (simp add: le_floor_iff)
  have "of_int k \<le> log 2 \<bar>x\<bar>" unfolding k_def by simp
  then have le: "2 powr (of_int k) \<le> \<bar>x\<bar>" using pos by (simp add: le_log_iff)
  have "quantum_exp x = k - 52" unfolding quantum_exp_def k_def [symmetric] using k by simp
  moreover have "pow2i (k - 52) = 2 powr (of_int k) / 2 ^ 52"
    by (simp add: pow2i_powr powr_diff)
  ultimately show ?thesis using le by (simp add: divide_right_mono)
qed

lemma round64_normal:
  assumes "pow2i (- 1022) \<le> \<bar>x\<bar>"
  obtains y where "\<bar>y - x\<bar> \<le> \<bar>x\<bar> / 2 ^ 53"
    and "round64 x = (if 2 ^ 1024 \<le> \<bar>y\<bar> then (if 0 < x then PInf else NInf) else Fin y)"
proof -
  have nz: "x \<noteq> 0" using assms(1) pow2i_pos [of "- 1022"] by auto
  define e where "e = quantum_exp x"
  define n where "n = round_half_even (x / pow2i e)"
  define y where "y = of_int n * pow2i e"
  have r: "round64 x = (if 2 ^ 1024 \<le> \<bar>y\<bar> then (if 0 < x then PInf else NInf) else Fin y)"
    using nz by (simp add: round64_def Let_def e_def n_def y_def)
  have p: "0 < pow2i e" by (rule pow2i_pos)
  have "\<bar>of_int n - x / pow2i e\<bar> \<le> 1 / 2" unfolding n_def by (rule round_half_even_error)
  then have "\<bar>of_int n - x / pow2i e\<bar> * pow2i e \<le> 1 / 2 * pow2i e"
    using p by (simp add: mult_right_mono)
  moreover have "\<bar>of_int n - x / pow2i e\<bar> * pow2i e = \<bar>(of_int n - x / pow2i e) * pow2i e\<bar>"
    using p by (simp add: abs_mult)
  moreover have "(of_int n - x / pow2i e) * pow2i e = y - x"
    using p by (simp add: y_def left_diff_distrib)
  ultimately have "\<bar>y - x\<bar> \<le> pow2i e / 2" by simp
  moreover have "pow2i e \<le> \<bar>x\<bar> / 2 ^ 52" unfolding e_def using assms(1) by (rule quantum_normal)
  ultimately have "\<bar>y - x\<bar> \<le> \<bar>x\<bar> / 2 ^ 53" by simp
  then show ?thesis using r that by blast
qed

lemma round64_not_NaN: "round64 x \<noteq> NaN"
  by (simp add: round64_def Let_def)

lemma round64_above_5:
  assumes "501 / 100 \<le> x"
  shows "gt (round64 x) (Fin 5)"
proof -
  have "pow2i (- 1022) \<le> 1" by (simp add: pow2i_def)
  then have "pow2i (- 1022) \<le> \<bar>x\<bar>" using assms by linarith
  then obtain y where e: "\<bar>y - x\<bar> \<le> \<bar>x\<bar> / 2 ^ 53"
    and r: "round64 x = (if 2 ^ 1024 \<le> \<bar>y\<bar> then (if 0 < x then PInf else NInf) else Fin y)"
    by (rule round64_normal)
  have n: "(2::real) ^ 53 = 9007199254740992" by simp
  have "5 < y" using e assms unfolding n by linarith
  then show ?thesis using r assms by simp
qed

lemma round64_below_5:
  assumes "1 / 100 \<le> x" and "x \<le> 499 / 100"
  shows "\<exists>y. round64 x = Fin y \<and> 0 < y \<and> y < 5"
proof -
  have "pow2i (- 1022) \<le> 1 / 100" by (simp add: pow2i_def)
  then have "pow2i (- 1022) \<le> \<bar>x\<bar>" using assms by linarith
  then obtain y where e: "\<bar>y - x\<bar> \<le> \<bar>x\<bar> / 2 ^ 53"
    and r: "round64 x = (if 2 ^ 1024 \<le> \<bar>y\<bar> then (if 0 < x then PInf else NInf) else Fin y)"
    by (rule round64_normal)
  have n: "(2::real) ^ 53 = 9007199254740992" by simp
  have y: "y < 5" "0 < y" using e assms unfolding n by linarith+
  have "(5::real) \<le> 2 ^ 1024" by simp
  then have "\<not> 2 ^ 1024 \<le> \<bar>y\<bar>" using y by linarith
  then show ?thesis using r y by simp
qed


lemma round_half_even_between: "\<lfloor>q\<rfloor> \<le> round_half_even q \<and> round_half_even q \<le> \<lceil>q\<rceil>"
proof -
  have "\<lfloor>q\<rfloor> + 1 \<le> \<lceil>q\<rceil>" if "of_int \<lfloor>q\<rfloor> < q"
    using that less_ceiling_iff [of "\<lfloor>q\<rfloor>" q] by linarith
  moreover have "\<lfloor>q\<rfloor> \<le> \<lceil>q\<rceil>" by (rule floor_le_ceiling)
  ultimately show ?thesis
    unfolding round_half_even_def Let_def by auto
qed

lemma round64_between_ints:
  assumes "\<bar>x\<bar> < 2 ^ 53"
  shows "\<exists>y. round64 x = Fin y
           \<and> (\<forall>c::int. of_int c \<le> x \<longrightarrow> of_int c \<le> y)
           \<and> (\<forall>c::int. x \<le> of_int c \<longrightarrow> y \<le> of_int c)"
proof (cases "x = 0")
  case True
  show ?thesis by (rule exI [of _ 0]) (simp add: True)
next
  case False
  define e where "e = quantum_exp x"
  have "log 2 \<bar>x\<bar> < 53" using False assms by (simp add: log_less_iff)
  then have "\<lfloor>log 2 \<bar>x\<bar>\<rfloor> \<le> 52" by linarith
  then have e0: "e \<le> 0" by (simp add: e_def quantum_exp_def)
  define m where "m = nat (- e)"
  have p: "pow2i e = 1 / 2 ^ m" using e0 by (simp add: pow2i_nonpos m_def)
  define n where "n = round_half_even (x / pow2i e)"
  define y :: real where "y = of_int n * pow2i e"
  have q: "x / pow2i e = x * 2 ^ m" by (simp add: p)
  have lo: "of_int c \<le> y" if "of_int c \<le> x" for c :: int
  proof -
    have "of_int (c * 2 ^ m) \<le> x * 2 ^ m" using that by simp
    then have "c * 2 ^ m \<le> \<lfloor>x * 2 ^ m\<rfloor>" by (simp only: le_floor_iff)
    also have "\<dots> \<le> n" using round_half_even_between [of "x * 2 ^ m"] by (simp add: n_def q)
    finally have "(of_int (c * 2 ^ m) :: real) \<le> of_int n" by (simp only: of_int_le_iff)
    then show ?thesis by (simp add: y_def p pos_le_divide_eq)
  qed
  have hi: "y \<le> of_int c" if "x \<le> of_int c" for c :: int
  proof -
    have "x * 2 ^ m \<le> of_int (c * 2 ^ m)" using that by simp
    then have "\<lceil>x * 2 ^ m\<rceil> \<le> c * 2 ^ m" by (simp only: ceiling_le_iff)
    moreover have "n \<le> \<lceil>x * 2 ^ m\<rceil>" using round_half_even_between [of "x * 2 ^ m"] by (simp add: n_def q)
    ultimately have "n \<le> c * 2 ^ m" by linarith
    then have "(of_int n :: real) \<le> of_int (c * 2 ^ m)" by (simp only: of_int_le_iff)
    then show ?thesis by (simp add: y_def p pos_divide_le_eq)
  qed
  have "of_int (- (2 ^ 53)) \<le> x" and "x \<le> of_int (2 ^ 53)" using assms by simp_all
  then have "of_int (- (2 ^ 53)) \<le> y" and "y \<le> of_int (2 ^ 53)"
    using lo [of "- (2 ^ 53)"] hi [of "2 ^ 53"] by blast+
  then have "\<bar>y\<bar> \<le> 2 ^ 53" by simp
  moreover have "(2::real) ^ 53 < 2 ^ 1024" by (rule power_strict_increasing) simp_all
  ultimately have "\<not> 2 ^ 1024 \<le> \<bar>y\<bar>" by linarith
  then have "round64 x = Fin y"
    using False by (simp add: round64_def Let_def y_def n_def e_def)
  then show ?thesis using lo hi by blast
qed

section \<open>Validity of a DataPoint\<close>

text \<open>
  Claim C1, as stated: \<open>isValid()\<close> is true exactly for a finite, non-NaN number, so an
  infinite value is not valid. The code tests \<open>typeof value === 'number'\<close> and
  \<open>!isNaN(value)\<close> only: a DataPoint whose value is +Infinity passes \<open>isValid\<close> although
  it is not finite.
\<close>

theorem C1_isValid_infinity_counterexample:
  "isValid \<lparr>dp_value = JNum PInf, timestamp = 0, metadata = [], dp_id = ''0-a'', derived = []\<rparr>
   \<and> \<not> spec_valid (JNum PInf)"
  by (simp add: isValid_def spec_valid_def global_isNaN_def)

text \<open>
  Claim C1, amended: \<open>isValid()\<close> is true exactly when the value is a number other than
  NaN, that is, a finite number, +Infinity or -Infinity.
\<close>

theorem C1_isValid_number_not_NaN:
  "isValid d =
     (spec_valid (dp_value d) \<or> dp_value d = JNum PInf \<or> dp_value d = JNum NInf)"
proof (cases "dp_value d")
  case (JNum n)
  then show ?thesis
    by (cases n) (simp_all add: isValid_def spec_valid_def global_isNaN_def)
qed (simp_all add: isValid_def spec_valid_def)

theorem C1_isValid_number_not_NaN_witness:
  "isValid \<lparr>dp_value = JNum NInf, timestamp = 0, metadata = [], dp_id = ''0-a'', derived = []\<rparr>
   \<and> \<not> isValid \<lparr>dp_value = JNum NaN, timestamp = 0, metadata = [], dp_id = ''0-a'', derived = []\<rparr>
   \<and> isValid \<lparr>dp_value = JNum (Fin 42), timestamp = 0, metadata = [], dp_id = ''0-a'', derived = []\<rparr>"
  using
    C1_isValid_number_not_NaN
      [of "\<lparr>dp_value = JNum NInf, timestamp = 0, metadata = [], dp_id = ''0-a'', derived = []\<rparr>"]
    C1_isValid_number_not_NaN
      [of "\<lparr>dp_value = JNum NaN, timestamp = 0, metadata = [], dp_id = ''0-a'', derived = []\<rparr>"]
    C1_isValid_number_not_NaN
      [of "\<lparr>dp_value = JNum (Fin 42), timestamp = 0, metadata = [], dp_id = ''0-a'', derived = []\<rparr>"]
  by (simp add: spec_valid_def)

section \<open>Emission and the catch clause\<close>

lemma run_listeners_quiet:
  "list_all quiet ls \<Longrightarrow> fst (run_listeners pl ls k x) = None"
proof (induction ls)
  case Nil
  then show ?case by simp
next
  case (Cons l ls)
  then show ?case
    by (cases l) (auto simp: pipeline_emit_def split: prod.splits option.splits)
qed

lemma stage_kinds_append [simp]: "stage_kinds (t @ u) = stage_kinds t @ stage_kinds u"
  by (induction t rule: stage_kinds.induct) simp_all

lemma stage_kinds_Notify [simp]: "stage_kinds (map (\<lambda>i. Notify i k x) js) = []"
  by (induction js) simp_all

lemma stage_kinds_pipeline_emit [simp]: "stage_kinds (snd (pipeline_emit pl k x)) = []"
  by (simp add: pipeline_emit_def)

lemma stage_kinds_run_listeners [simp]: "stage_kinds (snd (run_listeners pl ls k x)) = []"
proof (induction ls)
  case Nil
  then show ?case by simp
next
  case (Cons l ls)
  show ?case
  proof (cases l)
    case (Observer i)
    with Cons show ?thesis by (simp add: split_beta)
  next
    case (Forward k')
    have "stage_kinds (snd (pipeline_emit pl k' x)) = []" by simp
    with Cons Forward show ?thesis
      by (cases "pipeline_emit pl k' x") (auto simp: split_beta split: option.splits)
  qed
qed

lemma listeners_for_quiet:
  "list_all (\<lambda>e. quiet (snd e)) ls \<Longrightarrow> list_all quiet (listeners_for ls k)"
  by (induction ls) (auto simp: listeners_for_def)

lemma emit_safe:
  "error_safe (listeners s) \<Longrightarrow> fst (emit pl s k x) = None"
  by (auto simp: emit_def error_safe_def split_beta
      dest!: listeners_for_quiet [where k = k]
             run_listeners_quiet [where pl = pl and k = k and x = x])


lemma catching_Inr [simp]: "catching pl x (s, Inr r, t) = (s, Inr r, t)"
  by (simp add: catching_def)

lemma catching_Inl:
  "catching pl x (s, Inl e, t) =
     (s\<lparr>errorCount := errorCount s + 1\<rparr>,
      (case fst (emit pl (s\<lparr>errorCount := errorCount s + 1\<rparr>) ''error'' (PError e x (name s))) of
         None \<Rightarrow> Inr Null | Some e' \<Rightarrow> Inl e'),
      t @ snd (emit pl (s\<lparr>errorCount := errorCount s + 1\<rparr>) ''error'' (PError e x (name s))))"
  by (cases "emit pl (s\<lparr>errorCount := errorCount s + 1\<rparr>) ''error'' (PError e x (name s))")
    (auto simp: catching_def handleError_def Let_def split: option.splits)

lemma emit_then_eq:
  "emit_then pl s k x r =
     (s, (case fst (emit pl s k x) of None \<Rightarrow> r | Some e \<Rightarrow> Inl e), snd (emit pl s k x))"
  by (cases "emit pl s k x") (auto simp: emit_then_def split: option.splits)

section \<open>Z-score anomaly detection\<close>

















section \<open>The statistics snapshot of the AnomalyDetector\<close>

lemma anomalyRate_field:
  "map_of (anomaly_getStats s) ''anomalies'' = Some (FNum (count_js (anomalyCount s)))
   \<and> map_of (anomaly_getStats s) ''anomalyRate'' =
       Some (FStr (concat_str
         (toFixed2 (mul (divide_js (count_js (anomalyCount s)) (count_js (processedCount s)))
                        (Fin 100)))
         ''%''))"
  by (simp add: anomaly_getStats_def getStats_def)

text \<open>
  Once something has been processed the ratio is a number from 0 to 100, so the rate is
  written in decimal digits without a sign.
\<close>

lemma anomalyRate_decimal:
  assumes "0 < processedCount s" "anomalyCount s \<le> processedCount s"
  shows "\<exists>r. mul (divide_js (count_js (anomalyCount s)) (count_js (processedCount s))) (Fin 100)
               = Fin r
           \<and> 0 \<le> r \<and> r \<le> 100
           \<and> map_of (anomaly_getStats s) ''anomalyRate'' =
               Some (FStr (Chars (fixed_digits (nat \<lfloor>r * 100 + 1 / 2\<rfloor>) @ ''%'')))"
proof -
  define a :: real where "a = real (min (anomalyCount s) (2 ^ 53))"
  define p :: real where "p = real (min (processedCount s) (2 ^ 53))"
  have p0: "0 < p" using assms(1) by (simp add: p_def)
  have a0: "0 \<le> a" by (simp add: a_def)
  have "min (anomalyCount s) (2 ^ 53) \<le> min (processedCount s) (2 ^ 53)"
    using assms(2) by (simp add: min_le_iff_disj)
  then have ap: "a \<le> p" unfolding a_def p_def by (simp only: of_nat_le_iff)
  have x: "0 \<le> a / p" "a / p \<le> 1" using p0 a0 ap by simp_all
  have "(1::real) < 2 ^ 53" by simp
  then have "\<bar>a / p\<bar> < 2 ^ 53" using x by linarith
  then obtain q where q: "round64 (a / p) = Fin q"
    and ql: "\<forall>c::int. of_int c \<le> a / p \<longrightarrow> of_int c \<le> q"
    and qh: "\<forall>c::int. a / p \<le> of_int c \<longrightarrow> q \<le> of_int c"
    using round64_between_ints [of "a / p"] by blast
  have q01: "0 \<le> q" "q \<le> 1" using ql [rule_format, of 0] qh [rule_format, of 1] x by simp_all
  have "(100::real) < 2 ^ 53" by simp
  then have "\<bar>q * 100\<bar> < 2 ^ 53" using q01 by linarith
  then obtain r where r: "round64 (q * 100) = Fin r"
    and rl: "\<forall>c::int. of_int c \<le> q * 100 \<longrightarrow> of_int c \<le> r"
    and rh: "\<forall>c::int. q * 100 \<le> of_int c \<longrightarrow> r \<le> of_int c"
    using round64_between_ints [of "q * 100"] by blast
  have r0: "0 \<le> r" and r100: "r \<le> 100"
    using rl [rule_format, of 0] rh [rule_format, of 100] q01 by simp_all
  have m: "mul (divide_js (count_js (anomalyCount s)) (count_js (processedCount s))) (Fin 100)
             = Fin r"
  proof -
    have pz: "real (min (processedCount s) (2 ^ 53)) \<noteq> 0"
      using assms(1) by (simp add: min_def)
    have "divide_js (count_js (anomalyCount s)) (count_js (processedCount s)) = round64 (a / p)"
      by (simp only: count_js_def a_def p_def divide_js.simps pz if_False)
    then show ?thesis by (simp add: q r)
  qed
  have "(100::real) < 10 ^ 21" by simp
  then have b: "\<not> 10 ^ 21 \<le> \<bar>r\<bar>" "\<not> r < 0" "\<bar>r\<bar> = r" using r0 r100 by linarith+
  have "map_of (anomaly_getStats s) ''anomalyRate'' =
          Some (FStr (Chars (fixed_digits (nat \<lfloor>r * 100 + 1 / 2\<rfloor>) @ ''%'')))"
    unfolding anomaly_getStats_def getStats_def m using b by simp
  with m r0 r100 show ?thesis by blast
qed

lemma anomalyRate_NaN:
  assumes "processedCount s = 0" "anomalyCount s = 0"
  shows "map_of (anomaly_getStats s) ''anomalyRate'' = Some (FStr (Chars ''NaN%''))"
  using assms
  by (simp add: anomaly_getStats_def getStats_def count_js_def inf_signed_def)

text \<open>
  Claim C7, as stated: the snapshot's field \<open>anomalyRate\<close> holds the raw numeric ratio
  \<open>anomalies / processed * 100\<close>, not a formatted value. \<open>getStats\<close> stores
  \<open>(anomalies / processed * 100).toFixed(2) + '%'\<close>: after three observations with one
  anomaly the field is the string \<open>33.33%\<close>, not the number that \<open>1 / 3 * 100\<close>
  computes.
\<close>

theorem C7_anomalyRate_raw_ratio_counterexample:
  "map_of (anomaly_getStats
      ((new_AnomalyDetector ''d'' None)\<lparr>processedCount := 3, anomalyCount := 1\<rparr>)) ''anomalyRate''
     = Some (FStr (Chars ''33.33%''))
   \<and> map_of (anomaly_getStats
      ((new_AnomalyDetector ''d'' None)\<lparr>processedCount := 3, anomalyCount := 1\<rparr>)) ''anomalyRate''
     \<noteq> Some (FNum (mul (divide_js (Fin 1) (Fin 3)) (Fin 100)))"
proof -
  have e: "mul (divide_js (Fin 1) (Fin 3)) (Fin 100) = Fin (2345624805922133 / 70368744177664)"
  proof -
    have r1: "divide_js (Fin 1) (Fin 3) = Fin (6004799503160661 / 18014398509481984)"
    proof -
      have "round64 (1 / 3) = Fin (6004799503160661 / 18014398509481984)"
        by (rule round64_nearestI [where k = "- 2" and n = 6004799503160661]) (simp_all add: pow2i_def)
      then show ?thesis by (simp add: sub_def)
    qed
    have r2: "mul (Fin (6004799503160661 / 18014398509481984)) (Fin 100) = Fin (2345624805922133 / 70368744177664)"
    proof -
      have "round64 ((6004799503160661 / 18014398509481984) * 100) = Fin (2345624805922133 / 70368744177664)"
        by (rule round64_nearestI [where k = 5 and n = 4691249611844266]) (simp_all add: pow2i_def)
      then show ?thesis by (simp add: sub_def)
    qed
    show ?thesis
      by (simp add: r1 r2 del: mul.simps(1) divide_js.simps(1))
  qed
  show ?thesis
    by (simp add: anomaly_getStats_def getStats_def new_AnomalyDetector_def count_js_def e
        fixed_digits_def nat_to_digits.simps digit_char_def
        del: mul.simps(1) divide_js.simps(1))
qed

text \<open>
  Claim C7, amended: the snapshot of an AnomalyDetector contains the field \<open>anomalies\<close>,
  the anomaly counter as a number, and the field \<open>anomalyRate\<close>, a string: the number
  that \<open>anomalies / processed * 100\<close> computes, formatted by \<open>toFixed(2)\<close> and followed
  by \<open>%\<close>. Once something has been processed that number lies between 0 and 100 and the
  string is its rounding to two decimals, in decimal digits; before anything has been
  processed it is \<open>NaN%\<close>.
\<close>

theorem C7_anomalyRate_formatted:
  "map_of (anomaly_getStats s) ''anomalies'' = Some (FNum (count_js (anomalyCount s)))
   \<and> map_of (anomaly_getStats s) ''anomalyRate'' =
       Some (FStr (concat_str
         (toFixed2 (mul (divide_js (count_js (anomalyCount s)) (count_js (processedCount s)))
                        (Fin 100)))
         ''%''))
   \<and> (0 < processedCount s \<and> anomalyCount s \<le> processedCount s \<longrightarrow>
        (\<exists>r. mul (divide_js (count_js (anomalyCount s)) (count_js (processedCount s))) (Fin 100)
               = Fin r
           \<and> 0 \<le> r \<and> r \<le> 100
           \<and> map_of (anomaly_getStats s) ''anomalyRate'' =
               Some (FStr (Chars (fixed_digits (nat \<lfloor>r * 100 + 1 / 2\<rfloor>) @ ''%'')))))
   \<and> (processedCount s = 0 \<and> anomalyCount s = 0 \<longrightarrow>
        map_of (anomaly_getStats s) ''anomalyRate'' = Some (FStr (Chars ''NaN%'')))"
  using anomalyRate_field [of s] anomalyRate_decimal [of s] anomalyRate_NaN [of s]
  by blast

theorem C7_anomalyRate_formatted_witness:
  "map_of (anomaly_getStats
      ((new_AnomalyDetector ''d'' None)\<lparr>processedCount := 160, anomalyCount := 23\<rparr>)) ''anomalyRate''
     = Some (FStr (Chars ''14.37%''))
   \<and> map_of (anomaly_getStats
      ((new_AnomalyDetector ''d'' None)\<lparr>processedCount := 200, anomalyCount := 3\<rparr>)) ''anomalyRate''
     = Some (FStr (Chars ''1.50%''))
   \<and> map_of (anomaly_getStats (new_AnomalyDetector ''d'' None)) ''anomalyRate''
     = Some (FStr (Chars ''NaN%''))
   \<and> map_of (anomaly_getStats
      ((new_AnomalyDetector ''d'' None)\<lparr>processedCount := 200, anomalyCount := 3\<rparr>)) ''anomalies''
     = Some (FNum (Fin 3))"
proof -
  let ?s = "(new_AnomalyDetector ''d'' None)\<lparr>processedCount := 160, anomalyCount := 23\<rparr>"
  let ?t = "(new_AnomalyDetector ''d'' None)\<lparr>processedCount := 200, anomalyCount := 3\<rparr>"
  let ?n = "new_AnomalyDetector ''d'' None"
  have v: "processedCount ?s = 160" "anomalyCount ?s = 23"
    and w: "processedCount ?t = 200" "anomalyCount ?t = 3"
    and z: "processedCount ?n = 0" "anomalyCount ?n = 0"
    by (simp_all add: new_AnomalyDetector_def)
  have e: "mul (divide_js (Fin 23) (Fin 160)) (Fin 100) = Fin (8092405580431359 / 562949953421312)"
  proof -
    have r1: "divide_js (Fin 23) (Fin 160) = Fin (2589569785738035 / 18014398509481984)"
    proof -
      have "round64 (23 / 160) = Fin (2589569785738035 / 18014398509481984)"
        by (rule round64_nearestI [where k = "- 3" and n = 5179139571476070]) (simp_all add: pow2i_def)
      then show ?thesis by (simp add: sub_def)
    qed
    have r2: "mul (Fin (2589569785738035 / 18014398509481984)) (Fin 100) = Fin (8092405580431359 / 562949953421312)"
    proof -
      have "round64 ((2589569785738035 / 18014398509481984) * 100) = Fin (8092405580431359 / 562949953421312)"
        by (rule round64_nearestI [where k = 3 and n = 8092405580431359]) (simp_all add: pow2i_def)
      then show ?thesis by (simp add: sub_def)
    qed
    show ?thesis
      by (simp add: r1 r2 del: mul.simps(1) divide_js.simps(1))
  qed
  have f: "mul (divide_js (Fin 3) (Fin 200)) (Fin 100) = Fin (3 / 2)"
  proof -
    have r1: "divide_js (Fin 3) (Fin 200) = Fin (1080863910568919 / 72057594037927936)"
    proof -
      have "round64 (3 / 200) = Fin (1080863910568919 / 72057594037927936)"
        by (rule round64_nearestI [where k = "- 7" and n = 8646911284551352]) (simp_all add: pow2i_def)
      then show ?thesis by (simp add: sub_def)
    qed
    have r2: "mul (Fin (1080863910568919 / 72057594037927936)) (Fin 100) = Fin (3 / 2)"
    proof -
      have "round64 ((1080863910568919 / 72057594037927936) * 100) = Fin (3 / 2)"
        by (rule round64_nearestI [where k = 0 and n = 6755399441055744]) (simp_all add: pow2i_def)
      then show ?thesis by (simp add: sub_def)
    qed
    show ?thesis
      by (simp add: r1 r2 del: mul.simps(1) divide_js.simps(1))
  qed
  have d: "fixed_digits 1437 = ''14.37''" "fixed_digits 150 = ''1.50''"
    by (simp_all add: fixed_digits_def nat_to_digits.simps digit_char_def)
  have c: "count_js 3 = Fin 3" "count_js 23 = Fin 23" "count_js 160 = Fin 160"
    "count_js 200 = Fin 200"
    by (simp_all add: count_js_def)
  from C7_anomalyRate_formatted [of ?s]
  have "map_of (anomaly_getStats ?s) ''anomalyRate'' = Some (FStr (Chars ''14.37%''))"
    unfolding v c e by (simp add: d)
  moreover from C7_anomalyRate_formatted [of ?t]
  have "map_of (anomaly_getStats ?t) ''anomalyRate'' = Some (FStr (Chars ''1.50%''))"
    and "map_of (anomaly_getStats ?t) ''anomalies'' = Some (FNum (Fin 3))"
    unfolding w c f by (simp_all add: d)
  moreover from C7_anomalyRate_formatted [of ?n]
  have "map_of (anomaly_getStats ?n) ''anomalyRate'' = Some (FStr (Chars ''NaN%''))"
    unfolding z by blast
  ultimately show ?thesis by simp
qed

section \<open>Starting and stopping\<close>

text \<open>
  Claim C10: \<open>stop()\<close> and \<open>start()\<close> only set the running flag and publish the
  \<open>'stop'\<close> and \<open>'start'\<close> events. The list of stages, with every counter, window and
  history in it, and the pipeline's listeners are unchanged, so stopping and starting
  again gives back the pipeline as it was, running, with the same statistics.
\<close>

theorem C10_start_stop_frame:
  "fst (start p) = p\<lparr>isRunning := True\<rparr>
   \<and> fst (stop p) = p\<lparr>isRunning := False\<rparr>
   \<and> processors (fst (start p)) = processors p
   \<and> processors (fst (stop p)) = processors p
   \<and> snd (start p) =
        (None, PipelineEmit ''start'' PNone #
               map (\<lambda>i. Notify i ''start'' PNone) (listeners_for (pipeline_listeners p) ''start''))
   \<and> snd (stop p) =
        (None, PipelineEmit ''stop'' PNone #
               map (\<lambda>i. Notify i ''stop'' PNone) (listeners_for (pipeline_listeners p) ''stop''))
   \<and> fst (start (fst (stop p))) = p\<lparr>isRunning := True\<rparr>
   \<and> pipeline_getStats (fst (start (fst (stop p)))) = pipeline_getStats p
   \<and> pipeline_getStats (fst (stop p)) = pipeline_getStats p"
  by (simp add: start_def stop_def pipeline_emit_def pipeline_getStats_def)

theorem C10_start_stop_frame_witness:
  "fst (start (fst (stop sample_pipeline))) = sample_pipeline
   \<and> pipeline_getStats (fst (start (fst (stop sample_pipeline)))) = pipeline_getStats sample_pipeline
   \<and> processors (fst (stop sample_pipeline)) = processors sample_pipeline
   \<and> snd (stop sample_pipeline) = (None, [PipelineEmit ''stop'' PNone, Notify 7 ''stop'' PNone])"
proof -
  have r: "sample_pipeline\<lparr>isRunning := True\<rparr> = sample_pipeline"
    and l: "listeners_for (pipeline_listeners sample_pipeline) ''stop'' = [7]"
    by (simp_all add: sample_pipeline_def listeners_for_def)
  from C10_start_stop_frame [of sample_pipeline] show ?thesis
    unfolding r l list.map by blast
qed

section \<open>Errors that leave a stage and the loop of push\<close>

lemma pipeline_emit_error:
  "fst (pipeline_emit pl k x) = Some e \<Longrightarrow> e = ERR_UNHANDLED_ERROR x"
  by (auto simp: pipeline_emit_def split: if_splits)

lemma run_listeners_error:
  "fst (run_listeners pl ls k x) = Some e \<Longrightarrow> e = ERR_UNHANDLED_ERROR x"
proof (induction ls)
  case Nil
  then show ?case by simp
next
  case (Cons l ls)
  show ?case
  proof (cases l)
    case (Observer i)
    with Cons show ?thesis by (simp add: split_beta)
  next
    case (Forward k')
    show ?thesis
    proof (cases "fst (pipeline_emit pl k' x)")
      case None
      with Cons Forward show ?thesis
        by (cases "pipeline_emit pl k' x") (simp add: split_beta)
    next
      case (Some e')
      with Cons.prems Forward pipeline_emit_error [of pl k' x e'] show ?thesis
        by (cases "pipeline_emit pl k' x") simp
    qed
  qed
qed

lemma emit_error:
  "fst (emit pl s k x) = Some e \<Longrightarrow> e = ERR_UNHANDLED_ERROR x"
  by (auto simp: emit_def split_beta split: if_splits dest: run_listeners_error)

lemma catching_error:
  "fst (snd (catching pl x out)) = Inl e \<Longrightarrow> \<exists>y. e = ERR_UNHANDLED_ERROR y"
proof (cases out)
  case (fields s r t)
  assume a: "fst (snd (catching pl x out)) = Inl e"
  show ?thesis
  proof (cases r)
    case (Inl e0)
    with a fields show ?thesis
      by (auto simp: catching_Inl split: option.splits dest: emit_error)
  next
    case (Inr y)
    with a fields show ?thesis by simp
  qed
qed

lemma process_error:
  "fst (snd (process pl now s x)) = Inl e \<Longrightarrow> \<exists>y. e = ERR_UNHANDLED_ERROR y"
  by (cases s)
    (auto simp: split_beta filter_process_def transform_process_def aggregation_process_def
      anomaly_process_def trend_process_def dest: catching_error)

lemma run_stages_Null [simp]: "run_stages pl now ss Null = (ss, Inr Null, [])"
  by (cases ss) simp_all

lemma run_stages_error:
  "fst (snd (run_stages pl now ss x)) = Inl e \<Longrightarrow> \<exists>y. e = ERR_UNHANDLED_ERROR y"
proof (induction ss arbitrary: x)
  case Nil
  then show ?case by simp
next
  case (Cons s ss)
  show ?case
  proof (cases "x = Null")
    case True
    with Cons.prems show ?thesis by simp
  next
    case False
    obtain s' r t where p: "process pl now s x = (s', r, t)" by (cases "process pl now s x")
    show ?thesis
    proof (cases r)
      case (Inl e')
      with p False Cons.prems process_error [of pl now s x e] show ?thesis by simp
    next
      case (Inr y)
      with p False Cons.prems Cons.IH [of y] show ?thesis by (simp add: split_beta)
    qed
  qed
qed

lemma run_stages_append:
  "run_stages pl now (pre @ rest) x =
     (case run_stages pl now pre x of
        (pre', Inl e, t) \<Rightarrow> (pre' @ rest, Inl e, t)
      | (pre', Inr y, t) \<Rightarrow>
          (case run_stages pl now rest y of (rest', r, t') \<Rightarrow> (pre' @ rest', r, t @ t')))"
proof (induction pre arbitrary: x)
  case Nil
  then show ?case by (simp add: split_beta)
next
  case (Cons s pre)
  show ?case
  proof (cases "x = Null")
    case True
    then show ?thesis by simp
  next
    case False
    obtain s' r t where p: "process pl now s x = (s', r, t)" by (cases "process pl now s x")
    show ?thesis
    proof (cases r)
      case (Inl e)
      with p False show ?thesis by simp
    next
      case (Inr y)
      with p False Cons.IH [of y] show ?thesis
        by (simp add: split_beta split: sum.splits)
    qed
  qed
qed

lemma length_run_stages: "length (fst (run_stages pl now ss x)) = length ss"
proof (induction ss arbitrary: x)
  case Nil
  then show ?case by simp
next
  case (Cons s ss)
  show ?case
  proof (cases "x = Null")
    case True
    then show ?thesis by simp
  next
    case False
    obtain s' r t where p: "process pl now s x = (s', r, t)" by (cases "process pl now s x")
    with False Cons.IH show ?thesis
      by (cases r) (simp_all add: split_beta)
  qed
qed

section \<open>The try block and the catch clause of a stage\<close>

lemma filter_try_base:
  "listeners (fst (filter_try pl s x)) = listeners s \<and> name (fst (filter_try pl s x)) = name s
   \<and> errorCount (fst (filter_try pl s x)) = errorCount s
   \<and> processedCount (fst (filter_try pl s x)) = processedCount s"
  by (auto simp: filter_try_def emit_then_eq Let_def split: sum.splits bool.splits)

lemma transform_try_base:
  "listeners (fst (transform_try pl s x)) = listeners s \<and> name (fst (transform_try pl s x)) = name s
   \<and> errorCount (fst (transform_try pl s x)) = errorCount s
   \<and> processedCount (fst (transform_try pl s x)) = processedCount s"
  by (auto simp: transform_try_def emit_then_eq Let_def split: sum.splits)

lemma aggregation_try_base:
  "listeners (fst (aggregation_try pl now s x)) = listeners s
   \<and> name (fst (aggregation_try pl now s x)) = name s
   \<and> errorCount (fst (aggregation_try pl now s x)) = errorCount s
   \<and> processedCount (fst (aggregation_try pl now s x)) = processedCount s"
  by (auto simp: aggregation_try_def emit_then_eq Let_def split: sum.splits)

lemma anomaly_try_base:
  "listeners (fst (anomaly_try pl s x)) = listeners s \<and> name (fst (anomaly_try pl s x)) = name s
   \<and> errorCount (fst (anomaly_try pl s x)) = errorCount s
   \<and> processedCount (fst (anomaly_try pl s x)) = processedCount s"
  by (auto simp: anomaly_try_def emit_then_eq Let_def split_beta split: sum.splits option.splits)

lemma trend_try_base:
  "listeners (fst (trend_try pl now s x)) = listeners s \<and> name (fst (trend_try pl now s x)) = name s
   \<and> errorCount (fst (trend_try pl now s x)) = errorCount s
   \<and> processedCount (fst (trend_try pl now s x)) = processedCount s"
  by (auto simp: trend_try_def emit_then_eq Let_def split_beta split: sum.splits option.splits)

lemma try_block_base:
  "stage_listeners (fst (try_block pl now s x)) = stage_listeners s
   \<and> stage_name (fst (try_block pl now s x)) = stage_name s
   \<and> stage_errors (fst (try_block pl now s x)) = stage_errors s
   \<and> stage_processed (fst (try_block pl now s x)) = stage_processed s + 1"
  by (cases s)
    (simp_all add: split_beta filter_try_base transform_try_base aggregation_try_base
      anomaly_try_base trend_try_base)

lemma catching_eq:
  "catching pl x out =
     (case fst (snd out) of
        Inr r \<Rightarrow> out
      | Inl e \<Rightarrow>
          ((fst out)\<lparr>errorCount := errorCount (fst out) + 1\<rparr>,
           (case fst (emit pl ((fst out)\<lparr>errorCount := errorCount (fst out) + 1\<rparr>) ''error''
                       (PError e x (name (fst out)))) of
              None \<Rightarrow> Inr Null | Some e' \<Rightarrow> Inl e'),
           snd (snd out) @
           snd (emit pl ((fst out)\<lparr>errorCount := errorCount (fst out) + 1\<rparr>) ''error''
                  (PError e x (name (fst out))))))"
proof (cases out)
  case (fields s r t)
  then show ?thesis by (cases r) (simp_all add: catching_Inl)
qed

text \<open>
  \<open>process\<close> is its \<open>try\<close> block followed, when the block has thrown, by
  \<open>handleError\<close> and \<open>return null\<close>.
\<close>

lemma process_eq:
  "process pl now s x =
     (case fst (snd (try_block pl now s x)) of
        Inr r \<Rightarrow> try_block pl now s x
      | Inl e \<Rightarrow>
          (count_error (fst (try_block pl now s x)),
           (case fst (stage_emit pl (count_error (fst (try_block pl now s x))) ''error''
                       (PError e x (stage_name s))) of
              None \<Rightarrow> Inr Null | Some e' \<Rightarrow> Inl e'),
           snd (snd (try_block pl now s x)) @
           snd (stage_emit pl (count_error (fst (try_block pl now s x))) ''error''
                  (PError e x (stage_name s)))))"
proof (cases s)
  case (SFilter f)
  then show ?thesis
    by (simp add: filter_process_def catching_eq split_beta filter_try_base split: sum.splits)
next
  case (STransform f)
  then show ?thesis
    by (simp add: transform_process_def catching_eq split_beta transform_try_base split: sum.splits)
next
  case (SAggregation f)
  then show ?thesis
    by (simp add: aggregation_process_def catching_eq split_beta aggregation_try_base
        split: sum.splits)
next
  case (SAnomaly f)
  then show ?thesis
    by (simp add: anomaly_process_def catching_eq split_beta anomaly_try_base split: sum.splits)
next
  case (STrend f)
  then show ?thesis
    by (simp add: trend_process_def catching_eq split_beta trend_try_base split: sum.splits)
qed

lemma count_error_base [simp]:
  "stage_listeners (count_error s) = stage_listeners s"
  "stage_name (count_error s) = stage_name s"
  "stage_errors (count_error s) = stage_errors s + 1"
  "stage_processed (count_error s) = stage_processed s"
  by (cases s; simp)+

lemma stage_emit_eq:
  "stage_emit pl s k x =
     (if k = ''error'' \<and> listeners_for (stage_listeners s) ''error'' = []
      then (Some (ERR_UNHANDLED_ERROR x), [])
      else (fst (run_listeners pl (listeners_for (stage_listeners s) k) k x),
            StageEmit (stage_name s) k x #
            snd (run_listeners pl (listeners_for (stage_listeners s) k) k x)))"
  by (cases s) (simp_all add: emit_def split_beta)

lemma stage_emit_safe:
  "error_safe (stage_listeners s) \<Longrightarrow> fst (stage_emit pl s k x) = None"
  by (cases s) (simp_all add: emit_safe)

lemma process_base:
  "stage_listeners (fst (process pl now s x)) = stage_listeners s
   \<and> stage_name (fst (process pl now s x)) = stage_name s
   \<and> stage_processed (fst (process pl now s x)) = stage_processed s + 1"
  by (simp add: process_eq try_block_base split: sum.splits)

lemma process_safe:
  assumes "error_safe (stage_listeners s)"
  shows "\<exists>y. fst (snd (process pl now s x)) = Inr y"
proof (cases "fst (snd (try_block pl now s x))")
  case (Inl e)
  from assms have "error_safe (stage_listeners (count_error (fst (try_block pl now s x))))"
    by (simp add: try_block_base)
  from stage_emit_safe [OF this] Inl show ?thesis
    by (simp add: process_eq)
next
  case (Inr y)
  then show ?thesis by (simp add: process_eq)
qed

text \<open>
  A fault inside the \<open>try\<close> block of a stage with an error-safe registry: one more error
  is counted, the \<open>'error'\<close> event carries the error, the item and the stage's name, and
  \<open>process\<close> returns \<open>null\<close>.
\<close>

lemma process_fault:
  assumes "error_safe (stage_listeners s)" and "fst (snd (try_block pl now s x)) = Inl e"
  shows "process pl now s x =
           (count_error (fst (try_block pl now s x)), Inr Null,
            snd (snd (try_block pl now s x)) @
            StageEmit (stage_name s) ''error'' (PError e x (stage_name s)) #
            snd (run_listeners pl (listeners_for (stage_listeners s) ''error'') ''error''
                   (PError e x (stage_name s))))"
proof -
  let ?s1 = "count_error (fst (try_block pl now s x))"
  from assms(1) have safe: "error_safe (stage_listeners ?s1)"
    by (simp add: try_block_base)
  then have l: "listeners_for (stage_listeners s) ''error'' \<noteq> []"
    by (simp add: error_safe_def try_block_base)
  from stage_emit_safe [OF safe] assms(2) l show ?thesis
    by (simp add: process_eq stage_emit_eq try_block_base)
qed

lemma run_stages_safe:
  "list_all (\<lambda>s. error_safe (stage_listeners s)) ss \<Longrightarrow>
   (\<exists>y. fst (snd (run_stages pl now ss x)) = Inr y)
   \<and> list_all (\<lambda>s. error_safe (stage_listeners s)) (fst (run_stages pl now ss x))"
proof (induction ss arbitrary: x)
  case Nil
  then show ?case by simp
next
  case (Cons s ss)
  show ?case
  proof (cases "x = Null")
    case True
    with Cons.prems show ?thesis by simp
  next
    case False
    obtain s' r t where p: "process pl now s x = (s', r, t)" by (cases "process pl now s x")
    from Cons.prems have safe: "error_safe (stage_listeners s)" by simp
    from process_safe [OF safe, of pl now x] p obtain y where r: "r = Inr y" by auto
    from process_base [of pl now s x] p safe have s': "error_safe (stage_listeners s')" by simp
    from Cons.prems Cons.IH [of y] p r s' False show ?thesis
      by (simp add: split_beta)
  qed
qed

lemma push_safe:
  assumes "isRunning p" "pipeline_safe p"
  shows "(\<exists>y. fst (snd (push now p x)) = Inr y)
         \<and> isRunning (fst (push now p x)) \<and> pipeline_safe (fst (push now p x))
         \<and> pipeline_listeners (fst (push now p x)) = pipeline_listeners p"
proof -
  obtain ss r t where rs: "run_stages (pipeline_listeners p) now (processors p) x = (ss, r, t)"
    by (cases "run_stages (pipeline_listeners p) now (processors p) x")
  from run_stages_safe [of "processors p" "pipeline_listeners p" now x] assms(2) rs
  obtain y where r: "r = Inr y" and ss: "list_all (\<lambda>s. error_safe (stage_listeners s)) ss"
    by (auto simp: pipeline_safe_def)
  from assms(1) rs r ss show ?thesis
    by (simp add: push_def pipeline_emit_def pipeline_safe_def)
qed

text \<open>
  \<open>addProcessor\<close> gives the stage a listener for \<open>'error'\<close>: a pipeline built from
  stages whose own listeners are outside subscribers is error-safe.
\<close>

lemma addProcessor_safe:
  assumes "list_all (\<lambda>e. quiet (snd e)) (stage_listeners s)" "pipeline_safe p"
  shows "pipeline_safe (addProcessor s p)"
  using assms
  by (cases s) (auto simp: pipeline_safe_def addProcessor_def on_def error_safe_def listeners_for_def)

section \<open>The state gate of push\<close>

lemma push_not_running_error:
  "(\<exists>m. fst (snd (push now p x)) = Inl (StreamProcessorError m ''NOT_RUNNING'')) \<longleftrightarrow> \<not> isRunning p"
proof (cases "isRunning p")
  case False
  then show ?thesis by (simp add: push_def)
next
  case True
  obtain ss r t where rs: "run_stages (pipeline_listeners p) now (processors p) x = (ss, r, t)"
    by (cases "run_stages (pipeline_listeners p) now (processors p) x")
  show ?thesis
  proof (cases r)
    case (Inl e)
    with run_stages_error [of "pipeline_listeners p" now "processors p" x e] rs
    obtain y where "e = ERR_UNHANDLED_ERROR y" by auto
    with True rs Inl show ?thesis by (simp add: push_def)
  next
    case (Inr y)
    with True rs show ?thesis by (simp add: push_def pipeline_emit_def)
  qed
qed

text \<open>
  Claim C5: \<open>push\<close> throws the StreamProcessorError with code \<open>NOT_RUNNING\<close> exactly
  when the running flag is false. A new pipeline is not running and \<open>addProcessor\<close>
  does not start it, so every push before \<open>start()\<close> throws; a push that throws leaves
  the pipeline as it was and publishes nothing, so no stage has processed the item.
  After \<open>start()\<close> the same push returns a value (for a pipeline whose stages were
  registered by \<open>addProcessor\<close>, that is, an error-safe one), and after \<open>stop()\<close> it
  throws the same error again.
\<close>

theorem C5_push_state_gate:
  "((\<exists>m. fst (snd (push now p x)) = Inl (StreamProcessorError m ''NOT_RUNNING''))
      \<longleftrightarrow> \<not> isRunning p)
   \<and> (\<not> isRunning p \<longrightarrow>
        push now p x = (p, Inl (StreamProcessorError ''Pipeline is not running'' ''NOT_RUNNING''), []))
   \<and> \<not> isRunning new_DataStreamPipeline
   \<and> isRunning (addProcessor s p) = isRunning p
   \<and> isRunning (fst (start p))
   \<and> pipeline_safe new_DataStreamPipeline
   \<and> (list_all (\<lambda>e. quiet (snd e)) (stage_listeners s) \<and> pipeline_safe p \<longrightarrow>
        pipeline_safe (addProcessor s p))
   \<and> (pipeline_safe p \<longrightarrow> (\<exists>y. fst (snd (push now (fst (start p)) x)) = Inr y))
   \<and> push now (fst (stop (fst (push now (fst (start p)) x)))) x =
        (fst (stop (fst (push now (fst (start p)) x))),
         Inl (StreamProcessorError ''Pipeline is not running'' ''NOT_RUNNING''), [])"
proof -
  have a: "pipeline_safe p \<longrightarrow> (\<exists>y. fst (snd (push now (fst (start p)) x)) = Inr y)"
  proof
    assume "pipeline_safe p"
    then have "pipeline_safe (fst (start p))" "isRunning (fst (start p))"
      by (simp_all add: start_def pipeline_safe_def)
    from push_safe [OF this(2) this(1)] show "\<exists>y. fst (snd (push now (fst (start p)) x)) = Inr y"
      by simp
  qed
  have b: "\<not> isRunning (fst (stop q))" for q by (simp add: stop_def)
  have c: "pipeline_safe new_DataStreamPipeline"
    by (simp add: pipeline_safe_def new_DataStreamPipeline_def)
  show ?thesis
    using push_not_running_error [of now p x] a b [of "fst (push now (fst (start p)) x)"] c
      addProcessor_safe [of s p]
    by (simp add: push_def new_DataStreamPipeline_def addProcessor_def start_def)
qed

theorem C5_push_state_gate_witness:
  "push 0 detector_pipeline (sample_point 1) =
     (detector_pipeline, Inl (StreamProcessorError ''Pipeline is not running'' ''NOT_RUNNING''), [])
   \<and> pipeline_safe detector_pipeline
   \<and> (\<exists>y. fst (snd (push 0 (fst (start detector_pipeline)) (sample_point 1))) = Inr y)
   \<and> fst (snd (push 0 (fst (stop (fst (push 0 (fst (start detector_pipeline)) (sample_point 1)))))
        (sample_point 1))) = Inl (StreamProcessorError ''Pipeline is not running'' ''NOT_RUNNING'')"
proof -
  have n: "\<not> isRunning detector_pipeline"
    by (simp add: detector_pipeline_def addProcessor_def new_DataStreamPipeline_def)
  have q: "list_all (\<lambda>e. quiet (snd e)) (stage_listeners (SAnomaly (new_AnomalyDetector ''d'' None)))"
    by (simp add: new_AnomalyDetector_def)
  from C5_push_state_gate [of 0 new_DataStreamPipeline "sample_point 1" "SAnomaly (new_AnomalyDetector ''d'' None)"] q
  have s: "pipeline_safe detector_pipeline"
    unfolding detector_pipeline_def by blast
  from C5_push_state_gate [of 0 detector_pipeline "sample_point 1"] n s show ?thesis
    by simp
qed

section \<open>Short-circuit of push\<close>

text \<open>
  Claim C9: when, during a push, the stage \<open>s\<close> at some position of the list returns
  \<open>null\<close> for the item \<open>y\<close> that the stages \<open>pre\<close> before it have produced, the
  stages \<open>post\<close> after it are not called: they are the same in the pipeline after the
  push (counters, windows and histories included), and what the push has published
  is what \<open>pre\<close> and \<open>s\<close> have published followed by the pipeline's own
  \<open>'processed'\<close> event, so no stage of \<open>post\<close> has emitted anything.
\<close>

theorem C9_short_circuit:
  assumes "isRunning p" and "processors p = pre @ s # post"
    and "run_stages (pipeline_listeners p) now pre x = (pre', Inr y, t1)" and "y \<noteq> Null"
    and "process (pipeline_listeners p) now s y = (s', Inr Null, t2)"
  shows "push now p x =
           (p\<lparr>processors := pre' @ s' # post\<rparr>, Inr Null,
            t1 @ t2 @ snd (pipeline_emit (pipeline_listeners p) ''processed'' (PItem Null)))
       \<and> drop (Suc (length pre)) (processors (fst (push now p x))) = post
       \<and> stage_kinds (snd (snd (push now p x))) = stage_kinds t1 @ stage_kinds t2"
proof -
  have l: "length pre' = length pre"
    using length_run_stages [of "pipeline_listeners p" now pre x] assms(3) by simp
  have r: "run_stages (pipeline_listeners p) now (processors p) x = (pre' @ s' # post, Inr Null, t1 @ t2)"
    using assms by (simp add: run_stages_append)
  have p: "push now p x =
           (p\<lparr>processors := pre' @ s' # post\<rparr>, Inr Null,
            t1 @ t2 @ snd (pipeline_emit (pipeline_listeners p) ''processed'' (PItem Null)))"
    using assms(1) r by (simp add: push_def pipeline_emit_def)
  show ?thesis unfolding p by (simp add: l)
qed


theorem C9_short_circuit_witness:
  "drop 1 (processors (fst (push 0 filter_then_detector (sample_point 1)))) =
     drop 1 (processors filter_then_detector)
   \<and> fst (snd (push 0 filter_then_detector (sample_point 1))) = Inr Null
   \<and> stage_kinds (snd (snd (push 0 filter_then_detector (sample_point 1)))) = [''filtered'']
   \<and> map stage_processed (processors (fst (push 0 filter_then_detector (sample_point 1)))) = [1, 0]"
proof -
  let ?p = filter_then_detector
  let ?ls = "[(''error'', Forward ''processorError''), (''anomaly'', Forward ''anomaly''),
              (''trend'', Forward ''trend''), (''aggregation'', Forward ''aggregation'')]"
  let ?F = "SFilter ((new_FilterProcessor ''f'' reject_all)\<lparr>listeners := ?ls\<rparr>)"
  let ?D = "SAnomaly ((new_AnomalyDetector ''d'' None)\<lparr>listeners := ?ls\<rparr>)"
  let ?x = "sample_point 1"
  define out where "out = process (pipeline_listeners ?p) 0 ?F ?x"
  have h1: "isRunning ?p"
    by (simp add: filter_then_detector_def start_def)
  have ps: "processors ?p = [?F, ?D]"
    by (simp add: filter_then_detector_def start_def addProcessor_def new_DataStreamPipeline_def
        on_def new_FilterProcessor_def new_AnomalyDetector_def)
  then have h2: "processors ?p = [] @ ?F # [?D]"
    by simp
  have h3: "run_stages (pipeline_listeners ?p) 0 [] ?x = ([], Inr ?x, [])"
    by simp
  have h4: "?x \<noteq> Null"
    by (simp add: sample_point_def)
  have o: "fst (snd out) = Inr Null" "stage_kinds (snd (snd out)) = [''filtered'']"
    "stage_processed (fst out) = 1"
    by (simp_all add: out_def filter_process_def filter_try_def new_FilterProcessor_def
        reject_all_def emit_then_eq emit_def listeners_for_def)
  then have "out = (fst out, Inr Null, snd (snd out))"
    by (metis prod.collapse)
  then have h5: "process (pipeline_listeners ?p) 0 ?F ?x = (fst out, Inr Null, snd (snd out))"
    by (simp only: out_def)
  from C9_short_circuit [OF h1 h2 h3 h4 h5] have
    "push 0 ?p ?x =
       (?p\<lparr>processors := [] @ fst out # [?D]\<rparr>, Inr Null,
        [] @ snd (snd out) @ snd (pipeline_emit (pipeline_listeners ?p) ''processed'' (PItem Null)))"
    by (rule conjunct1)
  then show ?thesis
    by (simp add: o ps new_AnomalyDetector_def)
qed

section \<open>Event bubbling\<close>

lemma pipeline_events_append [simp]:
  "pipeline_events (t @ u) = pipeline_events t @ pipeline_events u"
  by (induction t rule: pipeline_events.induct) simp_all

lemma pipeline_events_Notify [simp]: "pipeline_events (map (\<lambda>i. Notify i k x) js) = []"
  by (induction js) simp_all

lemma run_listeners_append:
  "run_listeners pl (a @ b) k x =
     (case run_listeners pl a k x of
        (Some e, t) \<Rightarrow> (Some e, t)
      | (None, t) \<Rightarrow> (case run_listeners pl b k x of (e, t') \<Rightarrow> (e, t @ t')))"
proof (induction a)
  case Nil
  then show ?case by (simp add: split_beta)
next
  case (Cons l a)
  show ?case
  proof (cases l)
    case (Observer i)
    with Cons show ?thesis by (simp add: split_beta split: option.splits)
  next
    case (Forward k')
    with Cons show ?thesis
      by (cases "pipeline_emit pl k' x") (simp add: split_beta split: option.splits)
  qed
qed

lemma run_listeners_observers:
  "list_all is_observer ls \<Longrightarrow>
   fst (run_listeners pl ls k x) = None \<and> pipeline_events (snd (run_listeners pl ls k x)) = []"
proof (induction ls)
  case Nil
  then show ?case by simp
next
  case (Cons l ls)
  then show ?case by (cases l) (simp_all add: split_beta)
qed

lemma listeners_for_append [simp]:
  "listeners_for (a @ b) k = listeners_for a k @ listeners_for b k"
  by (simp add: listeners_for_def)

lemma listeners_for_observers:
  "list_all (\<lambda>e. is_observer (snd e)) ls \<Longrightarrow> list_all is_observer (listeners_for ls k)"
  by (induction ls) (auto simp: listeners_for_def)

lemma registered_listeners:
  "stage_listeners (last (processors (addProcessor s p))) =
     stage_listeners s @
     [(''error'', Forward ''processorError''), (''anomaly'', Forward ''anomaly''),
      (''trend'', Forward ''trend''), (''aggregation'', Forward ''aggregation'')]
   \<and> stage_name (last (processors (addProcessor s p))) = stage_name s"
  by (cases s) (simp_all add: addProcessor_def on_def)

lemma forwards_for:
  "listeners_for
     [(''error'', Forward ''processorError''), (''anomaly'', Forward ''anomaly''),
      (''trend'', Forward ''trend''), (''aggregation'', Forward ''aggregation'')] k =
   map Forward (bubbled_as k)"
  by (simp add: listeners_for_def bubbled_as_def)

lemma run_listeners_forwards:
  "''error'' \<notin> set ks \<Longrightarrow>
   fst (run_listeners pl (map Forward ks) k x) = None
   \<and> pipeline_events (snd (run_listeners pl (map Forward ks) k x)) = map (\<lambda>k'. (k', x)) ks"
proof (induction ks)
  case Nil
  then show ?case by simp
next
  case (Cons k' ks)
  then show ?case by (auto simp: pipeline_emit_def split_beta)
qed

lemma bubbled_as_not_error: "''error'' \<notin> set (bubbled_as k)"
  by (simp add: bubbled_as_def)

lemma bubbling:
  assumes "list_all (\<lambda>e. is_observer (snd e)) (stage_listeners s)"
  shows "fst (stage_emit pl (last (processors (addProcessor s p))) k x) = None
       \<and> pipeline_events (snd (stage_emit pl (last (processors (addProcessor s p))) k x)) =
           map (\<lambda>k'. (k', x)) (bubbled_as k)"
proof -
  let ?own = "listeners_for (stage_listeners s) k"
  let ?fw = "map Forward (bubbled_as k)"
  from assms have "list_all is_observer ?own" by (rule listeners_for_observers)
  from run_listeners_observers [OF this, of pl k x]
  have own: "fst (run_listeners pl ?own k x) = None"
            "pipeline_events (snd (run_listeners pl ?own k x)) = []" by simp_all
  from run_listeners_forwards [OF bubbled_as_not_error, of pl k k x]
  have fw: "fst (run_listeners pl ?fw k x) = None"
           "pipeline_events (snd (run_listeners pl ?fw k x)) = map (\<lambda>k'. (k', x)) (bubbled_as k)"
    by simp_all
  have r: "run_listeners pl (?own @ ?fw) k x =
             (None, snd (run_listeners pl ?own k x) @ snd (run_listeners pl ?fw k x))"
    using own(1) fw(1) by (simp add: run_listeners_append split_beta split: option.splits)
  have e: "listeners_for (stage_listeners (last (processors (addProcessor s p)))) ''error'' \<noteq> []"
    by (simp add: registered_listeners forwards_for bubbled_as_def)
  show ?thesis
    using e by (simp add: stage_emit_eq) (simp add: registered_listeners forwards_for r own(2) fw(2))
qed

text \<open>
  Claim C4, as stated: after \<open>addProcessor\<close>, every \<open>'error'\<close>, \<open>'anomaly'\<close>,
  \<open>'trend'\<close> or \<open>'aggregation'\<close> event of the stage is re-published on the pipeline
  under the same name. The listener that \<open>addProcessor\<close> registers for \<open>'error'\<close>
  emits \<open>'processorError'\<close>: an \<open>'error'\<close> event of a registered detector reaches the
  pipeline as \<open>'processorError'\<close>, and no \<open>'error'\<close> event is emitted on the pipeline.
\<close>

theorem C4_error_renamed_counterexample:
  "pipeline_events (snd (stage_emit (pipeline_listeners detector_pipeline)
      (last (processors detector_pipeline)) ''error'' (PError (Thrown ''boom'') Null ''d''))) =
     [(''processorError'', PError (Thrown ''boom'') Null ''d'')]
   \<and> (''error'', PError (Thrown ''boom'') Null ''d'') \<notin>
       set (pipeline_events (snd (stage_emit (pipeline_listeners detector_pipeline)
         (last (processors detector_pipeline)) ''error'' (PError (Thrown ''boom'') Null ''d''))))"
proof -
  have "list_all (\<lambda>e. is_observer (snd e))
          (stage_listeners (SAnomaly (new_AnomalyDetector ''d'' None)))"
    by (simp add: new_AnomalyDetector_def)
  from bubbling [OF this, of "pipeline_listeners detector_pipeline" new_DataStreamPipeline
      "''error''" "PError (Thrown ''boom'') Null ''d''"]
  show ?thesis
    by (simp add: detector_pipeline_def bubbled_as_def)
qed

text \<open>
  Claim C4, amended: after \<open>addProcessor(stage)\<close>, for a stage that had outside
  subscribers only, every \<open>'anomaly'\<close>, \<open>'trend'\<close> or \<open>'aggregation'\<close> event published
  by the stage is re-published once on the pipeline's own emitter under the same name,
  and every \<open>'error'\<close> event is re-published once under the name \<open>'processorError'\<close>;
  the payload is unchanged in both cases, and events of other names (\<open>'data'\<close>,
  \<open>'filtered'\<close>) are not re-published.
\<close>

theorem C4_event_bubbling:
  assumes "list_all (\<lambda>e. is_observer (snd e)) (stage_listeners s)"
  shows "fst (stage_emit (pipeline_listeners (addProcessor s p))
                (last (processors (addProcessor s p))) k x) = None
       \<and> pipeline_events (snd (stage_emit (pipeline_listeners (addProcessor s p))
                (last (processors (addProcessor s p))) k x)) =
           (if k = ''error'' then [(''processorError'', x)]
            else if k = ''anomaly'' \<or> k = ''trend'' \<or> k = ''aggregation'' then [(k, x)]
            else [])"
  using bubbling [OF assms, of "pipeline_listeners (addProcessor s p)" p k x]
  by (simp add: bubbled_as_def)

theorem C4_event_bubbling_witness:
  "stage_emit (pipeline_listeners (addProcessor watched_trend trend_pipeline))
     (last (processors (addProcessor watched_trend trend_pipeline))) ''trend'' (PItem Null) =
     (None, [StageEmit ''t'' ''trend'' (PItem Null), Notify 3 ''trend'' (PItem Null),
             PipelineEmit ''trend'' (PItem Null), Notify 5 ''trend'' (PItem Null)])
   \<and> pipeline_events (snd (stage_emit (pipeline_listeners (addProcessor watched_trend trend_pipeline))
     (last (processors (addProcessor watched_trend trend_pipeline))) ''trend'' (PItem Null))) =
     [(''trend'', PItem Null)]"
proof -
  have o: "list_all (\<lambda>e. is_observer (snd e)) (stage_listeners watched_trend)"
    by (simp add: watched_trend_def on_def new_TrendAnalyzer_def)
  have t: "stage_emit (pipeline_listeners (addProcessor watched_trend trend_pipeline))
     (last (processors (addProcessor watched_trend trend_pipeline))) ''trend'' (PItem Null) =
     (None, [StageEmit ''t'' ''trend'' (PItem Null), Notify 3 ''trend'' (PItem Null),
             PipelineEmit ''trend'' (PItem Null), Notify 5 ''trend'' (PItem Null)])"
    by (simp add: watched_trend_def trend_pipeline_def addProcessor_def pipeline_on_def
        new_DataStreamPipeline_def on_def new_TrendAnalyzer_def emit_def listeners_for_def
        pipeline_emit_def)
  from C4_event_bubbling [OF o, of trend_pipeline "''trend''" "PItem Null"] t show ?thesis
    by simp
qed

section \<open>Faults inside a stage\<close>



lemma try_block_fault_sources:
  "predicate f x = Inl e \<Longrightarrow> fst (snd (try_block pl now (SFilter f) x)) = Inl e"
  "transformer g x = Inl e \<Longrightarrow> fst (snd (try_block pl now (STransform g) x)) = Inl e"
  "read_value x = Inl e \<Longrightarrow> fst (snd (try_block pl now (SAnomaly d) x)) = Inl e"
  "read_value x = Inl e \<Longrightarrow> fst (snd (try_block pl now (STrend t) x)) = Inl e"
  by (simp_all add: split_beta filter_try_def transform_try_def anomaly_try_def trend_try_def)

lemma aggregation_fault_source:
  "calculateStats now (if gt (length_js (window a @ [x])) (windowSize a)
                       then shift (window a @ [x]) else window a @ [x]) = Inl e \<Longrightarrow>
   fst (snd (try_block pl now (SAggregation a) x)) = Inl e"
  by (simp add: split_beta aggregation_try_def Let_def)


lemma process_counts_error:
  assumes "error_safe (stage_listeners s)" and "fst (snd (try_block pl now s x)) = Inl e"
  shows "fst (snd (process pl now s x)) = Inr Null
       \<and> stage_errors (fst (process pl now s x)) = stage_errors s + 1
       \<and> stage_processed (fst (process pl now s x)) = stage_processed s + 1
       \<and> snd (snd (process pl now s x)) =
           snd (snd (try_block pl now s x)) @
           StageEmit (stage_name s) ''error'' (PError e x (stage_name s)) #
           snd (run_listeners pl (listeners_for (stage_listeners s) ''error'') ''error''
                  (PError e x (stage_name s)))"
  by (simp add: process_fault [OF assms] try_block_base)

lemma process_no_fault:
  assumes "fst (snd (try_block pl now s x)) = Inr r"
  shows "process pl now s x = try_block pl now s x
       \<and> fst (snd (process pl now s x)) = Inr r
       \<and> stage_errors (fst (process pl now s x)) = stage_errors s"
  using assms by (simp add: process_eq try_block_base)

lemma push_single_fault:
  assumes "isRunning p" and "processors p = [s]" and "error_safe (stage_listeners s)"
    and "fst (snd (try_block (pipeline_listeners p) now s x)) = Inl e" and "x \<noteq> Null"
  shows "fst (snd (push now p x)) = Inr Null
       \<and> processors (fst (push now p x)) = [count_error (fst (try_block (pipeline_listeners p) now s x))]
       \<and> map stage_errors (processors (fst (push now p x))) = [stage_errors s + 1]
       \<and> isRunning (fst (push now p x))
       \<and> pipeline_listeners (fst (push now p x)) = pipeline_listeners p"
  using assms process_fault [OF assms(3, 4)]
  by (simp add: push_def pipeline_emit_def try_block_base)

section \<open>Error isolation\<close>

text \<open>
  Claim C3, as stated: for every stage and every input, \<open>process\<close> never throws.
  \<open>handleError\<close> emits \<open>'error'\<close> from inside the \<open>catch\<close> clause, and Node's
  \<open>emit\<close> throws an \<open>'error'\<close> event that has no listener: a TransformProcessor
  outside a pipeline, without listeners, whose function throws, lets
  \<open>ERR_UNHANDLED_ERROR\<close> leave \<open>process\<close>.
\<close>

theorem C3_no_listener_counterexample:
  "fst (snd (process [] 0 (STransform (new_TransformProcessor ''t'' always_faults)) (sample_point 1))) =
     Inl (ERR_UNHANDLED_ERROR (PError (Thrown ''boom'') (sample_point 1) ''t''))"
  by (simp add: transform_process_def transform_try_def new_TransformProcessor_def always_faults_def
      catching_Inl emit_def listeners_for_def)

lemma transform_fault_state:
  "transformer g x = Inl e \<Longrightarrow>
   count_error (fst (try_block pl now (STransform g) x)) =
     STransform (g\<lparr>processedCount := processedCount g + 1, errorCount := errorCount g + 1\<rparr>)"
  by (simp add: split_beta transform_try_def)

text \<open>
  Claim C3, amended: for every stage with an error-safe registry (a listener for
  \<open>'error'\<close>, as \<open>addProcessor\<close> registers one, and no listener that throws) and every
  input, \<open>process\<close> returns a value. When the \<open>try\<close> block faults (the predicate or
  the transformer throws, or the statistics read \<open>value\<close> of \<open>null\<close> or \<open>undefined\<close>),
  the call counts exactly one more error, publishes after the block's events an
  \<open>'error'\<close> event carrying the error, the item and the stage's name, and returns
  \<open>null\<close>; when it does not fault, the error counter is unchanged. A push on a running
  pipeline of error-safe stages returns a value and leaves such a pipeline, so later
  pushes return too; through a single Transform stage whose function faults it returns
  \<open>null\<close> with one more error counted, once per push.
\<close>

theorem C3_error_isolation:
  "(error_safe (stage_listeners s) \<longrightarrow>
      (\<exists>y. fst (snd (process pl now s x)) = Inr y)
      \<and> (\<forall>e. fst (snd (try_block pl now s x)) = Inl e \<longrightarrow>
            fst (snd (process pl now s x)) = Inr Null
            \<and> stage_errors (fst (process pl now s x)) = stage_errors s + 1
            \<and> snd (snd (process pl now s x)) =
                snd (snd (try_block pl now s x)) @
                StageEmit (stage_name s) ''error'' (PError e x (stage_name s)) #
                snd (run_listeners pl (listeners_for (stage_listeners s) ''error'') ''error''
                       (PError e x (stage_name s))))
      \<and> (\<forall>r. fst (snd (try_block pl now s x)) = Inr r \<longrightarrow>
            fst (snd (process pl now s x)) = Inr r
            \<and> stage_errors (fst (process pl now s x)) = stage_errors s))
   \<and> (predicate f x = Inl e \<longrightarrow> fst (snd (try_block pl now (SFilter f) x)) = Inl e)
   \<and> (transformer g x = Inl e \<longrightarrow> fst (snd (try_block pl now (STransform g) x)) = Inl e)
   \<and> (read_value x = Inl e \<longrightarrow>
        fst (snd (try_block pl now (SAnomaly d) x)) = Inl e
        \<and> fst (snd (try_block pl now (STrend t) x)) = Inl e)
   \<and> (calculateStats now (if gt (length_js (window a @ [x])) (windowSize a)
                            then shift (window a @ [x]) else window a @ [x]) = Inl e \<longrightarrow>
        fst (snd (try_block pl now (SAggregation a) x)) = Inl e)
   \<and> (isRunning p \<and> pipeline_safe p \<longrightarrow>
        (\<exists>y. fst (snd (push now p x)) = Inr y)
        \<and> isRunning (fst (push now p x)) \<and> pipeline_safe (fst (push now p x)))
   \<and> (isRunning p \<and> processors p = [STransform g] \<and> error_safe (listeners g)
        \<and> transformer g x = Inl e \<and> x \<noteq> Null \<longrightarrow>
        fst (snd (push now p x)) = Inr Null
        \<and> processors (fst (push now p x)) =
            [STransform (g\<lparr>processedCount := processedCount g + 1,
                            errorCount := errorCount g + 1\<rparr>)]
        \<and> isRunning (fst (push now p x)))"
proof -
  have stage: "error_safe (stage_listeners s) \<longrightarrow>
      (\<exists>y. fst (snd (process pl now s x)) = Inr y)
      \<and> (\<forall>e. fst (snd (try_block pl now s x)) = Inl e \<longrightarrow>
            fst (snd (process pl now s x)) = Inr Null
            \<and> stage_errors (fst (process pl now s x)) = stage_errors s + 1
            \<and> snd (snd (process pl now s x)) =
                snd (snd (try_block pl now s x)) @
                StageEmit (stage_name s) ''error'' (PError e x (stage_name s)) #
                snd (run_listeners pl (listeners_for (stage_listeners s) ''error'') ''error''
                       (PError e x (stage_name s))))
      \<and> (\<forall>r. fst (snd (try_block pl now s x)) = Inr r \<longrightarrow>
            fst (snd (process pl now s x)) = Inr r
            \<and> stage_errors (fst (process pl now s x)) = stage_errors s)"
    using process_safe [of s pl now x] process_counts_error [of s pl now x]
      process_no_fault [of pl now s x]
    by blast
  have pipe: "isRunning p \<and> pipeline_safe p \<longrightarrow>
        (\<exists>y. fst (snd (push now p x)) = Inr y)
        \<and> isRunning (fst (push now p x)) \<and> pipeline_safe (fst (push now p x))"
    using push_safe [of p now x] by blast
  have single: "isRunning p \<and> processors p = [STransform g] \<and> error_safe (listeners g)
        \<and> transformer g x = Inl e \<and> x \<noteq> Null \<longrightarrow>
        fst (snd (push now p x)) = Inr Null
        \<and> processors (fst (push now p x)) =
            [STransform (g\<lparr>processedCount := processedCount g + 1,
                            errorCount := errorCount g + 1\<rparr>)]
        \<and> isRunning (fst (push now p x))"
  proof (intro impI, elim conjE)
    assume a: "isRunning p" "processors p = [STransform g]" "error_safe (listeners g)"
      "transformer g x = Inl e" "x \<noteq> Null"
    from a(3) have s: "error_safe (stage_listeners (STransform g))" by simp
    from try_block_fault_sources(2) [OF a(4)]
    have t: "fst (snd (try_block (pipeline_listeners p) now (STransform g) x)) = Inl e" .
    from push_single_fault [OF a(1) a(2) s t a(5)] transform_fault_state [OF a(4)]
    show "fst (snd (push now p x)) = Inr Null
        \<and> processors (fst (push now p x)) =
            [STransform (g\<lparr>processedCount := processedCount g + 1,
                            errorCount := errorCount g + 1\<rparr>)]
        \<and> isRunning (fst (push now p x))"
      by simp
  qed
  from stage pipe single try_block_fault_sources(1) [of f x e pl now]
    try_block_fault_sources(2) [of g x e pl now]
    try_block_fault_sources(3) [of x e pl now d] try_block_fault_sources(4) [of x e pl now t]
    aggregation_fault_source [of now a x e pl]
  show ?thesis by blast
qed


theorem C3_error_isolation_witness:
  "fst (snd (push 0 faulty_pipeline (sample_point 1))) = Inr Null
   \<and> fst (snd (push 0 (fst (push 0 faulty_pipeline (sample_point 1))) (sample_point 2))) = Inr Null
   \<and> map stage_errors
        (processors (fst (push 0 (fst (push 0 faulty_pipeline (sample_point 1))) (sample_point 2)))) = [2]
   \<and> pipeline_safe (fst (push 0 faulty_pipeline (sample_point 1)))
   \<and> fst (snd (process [] 0 (last (processors valid_filter_pipeline)) Null)) = Inr Null
   \<and> stage_errors (fst (process [] 0 (last (processors valid_filter_pipeline)) Null)) = 1
   \<and> fst (snd (process [] 0 (last (processors detector_pipeline)) Undefined)) = Inr Null
   \<and> stage_errors (fst (process [] 0 (last (processors detector_pipeline)) Undefined)) = 1
   \<and> fst (snd (process [] 0 (last (processors detector_pipeline)) (sample_point 1))) =
       Inr (sample_point 1)
   \<and> stage_errors (fst (process [] 0 (last (processors detector_pipeline)) (sample_point 1))) = 0
   \<and> fst (snd (try_block [] 0 (SAggregation (new_AggregationProcessor ''a'' None)) Undefined)) =
       Inl (TypeError ''Cannot read properties of undefined (reading 'value')'')"
proof -
  let ?ls = "[(''error'', Forward ''processorError''), (''anomaly'', Forward ''anomaly''),
              (''trend'', Forward ''trend''), (''aggregation'', Forward ''aggregation'')]"
  let ?g0 = "(new_TransformProcessor ''t'' always_faults)\<lparr>listeners := ?ls\<rparr>"
  let ?g1 = "?g0\<lparr>processedCount := processedCount ?g0 + 1, errorCount := errorCount ?g0 + 1\<rparr>"
  let ?p1 = "fst (push 0 faulty_pipeline (sample_point 1))"
  let ?F = "(new_FilterProcessor ''f'' valid_predicate)\<lparr>listeners := ?ls\<rparr>"
  let ?D = "(new_AnomalyDetector ''d'' None)\<lparr>listeners := ?ls\<rparr>"
  let ?A = "new_AggregationProcessor ''a'' None"
  let ?T = "new_TrendAnalyzer ''t'' None"
  let ?eu = "TypeError ''Cannot read properties of undefined (reading 'value')''"
  let ?en = "TypeError ''Cannot read properties of null (reading 'isValid')''"
  have h0: "isRunning faulty_pipeline" "processors faulty_pipeline = [STransform ?g0]"
    by (simp_all add: faulty_pipeline_def start_def addProcessor_def new_DataStreamPipeline_def
        on_def new_TransformProcessor_def)
  have s0: "error_safe (listeners ?g0)" "error_safe (listeners ?g1)"
    by (simp_all add: error_safe_def listeners_for_def)
  have ps: "pipeline_safe faulty_pipeline"
    by (simp add: pipeline_safe_def h0(2) error_safe_def listeners_for_def)
  have f0: "transformer ?g0 (sample_point 1) = Inl (Thrown ''boom'')"
           "transformer ?g1 (sample_point 2) = Inl (Thrown ''boom'')"
    by (simp_all add: new_TransformProcessor_def always_faults_def)
  have n0: "sample_point 1 \<noteq> Null" "sample_point 2 \<noteq> Null"
    by (simp_all add: sample_point_def)
  have F: "last (processors valid_filter_pipeline) = SFilter ?F"
    by (simp add: valid_filter_pipeline_def addProcessor_def new_DataStreamPipeline_def on_def
        new_FilterProcessor_def)
  have D: "last (processors detector_pipeline) = SAnomaly ?D"
    by (simp add: detector_pipeline_def addProcessor_def new_DataStreamPipeline_def on_def
        new_AnomalyDetector_def)
  have sF: "error_safe (stage_listeners (SFilter ?F))" "predicate ?F Null = Inl ?en"
    "stage_errors (SFilter ?F) = 0"
    by (simp_all add: error_safe_def listeners_for_def new_FilterProcessor_def)
  have sD: "error_safe (stage_listeners (SAnomaly ?D))" "read_value Undefined = Inl ?eu"
    "stage_errors (SAnomaly ?D) = 0"
    by (simp_all add: error_safe_def listeners_for_def new_AnomalyDetector_def)
  have ok: "fst (snd (try_block [] 0 (SAnomaly ?D) (sample_point 1))) = Inr (sample_point 1)"
    by (simp add: anomaly_try_def sample_point_def new_AnomalyDetector_def Let_def emit_then_eq
        emit_def listeners_for_def)
  have cs: "calculateStats 0 (if gt (length_js (window ?A @ [Undefined])) (windowSize ?A)
              then shift (window ?A @ [Undefined]) else window ?A @ [Undefined]) = Inl ?eu"
    by (simp add: new_AggregationProcessor_def length_js_def calculateStats_def)
  note inst = C3_error_isolation [where now = 0 and pl = "[]" and d = ?D and t = ?T and a = ?A]
  from inst [where p = faulty_pipeline and g = ?g0 and x = "sample_point 1"
      and e = "Thrown ''boom''" and s = "STransform ?g0" and f = ?F]
    h0 s0(1) f0(1) n0(1) ps
  have a1: "fst (snd (push 0 faulty_pipeline (sample_point 1))) = Inr Null"
    "processors ?p1 = [STransform ?g1]" "isRunning ?p1" "pipeline_safe ?p1"
    by blast+
  from inst [where p = ?p1 and g = ?g1 and x = "sample_point 2"
      and e = "Thrown ''boom''" and s = "STransform ?g0" and f = ?F]
    a1(2,3) s0(2) f0(2) n0(2)
  have a2: "fst (snd (push 0 ?p1 (sample_point 2))) = Inr Null"
    "processors (fst (push 0 ?p1 (sample_point 2))) =
       [STransform (?g1\<lparr>processedCount := processedCount ?g1 + 1, errorCount := errorCount ?g1 + 1\<rparr>)]"
    by blast+
  from inst [where p = faulty_pipeline and g = ?g0 and x = Null and e = ?en
      and s = "SFilter ?F" and f = ?F] sF
  have a3: "fst (snd (process [] 0 (SFilter ?F) Null)) = Inr Null"
    "stage_errors (fst (process [] 0 (SFilter ?F) Null)) = 1"
    by simp_all
  from inst [where p = faulty_pipeline and g = ?g0 and x = Undefined and e = ?eu
      and s = "SAnomaly ?D" and f = ?F] sD cs
  have a4: "fst (snd (process [] 0 (SAnomaly ?D) Undefined)) = Inr Null"
    "stage_errors (fst (process [] 0 (SAnomaly ?D) Undefined)) = 1"
    "fst (snd (try_block [] 0 (SAggregation ?A) Undefined)) = Inl ?eu"
    by simp_all
  from inst [where p = faulty_pipeline and g = ?g0 and x = "sample_point 1" and e = ?eu
      and s = "SAnomaly ?D" and f = ?F] sD(1,3) ok
  have a5: "fst (snd (process [] 0 (SAnomaly ?D) (sample_point 1))) = Inr (sample_point 1)"
    "stage_errors (fst (process [] 0 (SAnomaly ?D) (sample_point 1))) = 0"
    by simp_all
  show ?thesis
    unfolding F D
    by (intro conjI a1(1) a1(4) a2(1) a3 a4 a5) (simp add: a2(2) new_TransformProcessor_def)
qed

section \<open>A null input\<close>







section \<open>Formatting to two decimals and parsing back\<close>

lemma below_ten: "d < 10 \<Longrightarrow> d \<in> {0, 1, 2, 3, 4, 5, 6, 7, 8, 9::nat}"
  by auto

lemma digit_char_props:
  assumes "d < 10"
  shows "is_digit (digit_char d)" and "digit_val (digit_char d) = d"
    and "digit_char d \<noteq> CHR ''.''" and "digit_char d \<noteq> CHR '' ''"
    and "digit_char d \<noteq> CHR ''-''" and "digit_char d \<noteq> CHR ''+''"
    and "digit_char d \<noteq> CHR ''I''"
  using below_ten [OF assms]
  by (auto simp: digit_char_def is_digit_def digit_val_def)

lemma not_digit_point: "\<not> is_digit CHR ''.''"
  by (simp add: is_digit_def)

lemma digits_value_snoc: "digits_value (cs @ [c]) = 10 * digits_value cs + digit_val c"
  by (simp add: digits_value_def)

lemma nat_to_digits_props:
  "nat_to_digits n \<noteq> [] \<and> list_all is_digit (nat_to_digits n)
   \<and> digits_value (nat_to_digits n) = n"
proof (induction n rule: nat_to_digits.induct)
  case (1 n)
  show ?case
  proof (cases "n < 10")
    case True
    then show ?thesis
      by (simp add: nat_to_digits.simps [of n] digit_char_props digits_value_def)
  next
    case False
    have m: "n mod 10 < 10" by simp
    from False 1 show ?thesis
      by (simp add: nat_to_digits.simps [of n] digit_char_props [OF m] digits_value_snoc)
  qed
qed

lemma nat_to_digits_hd:
  "\<exists>d cs. nat_to_digits n = digit_char d # cs \<and> d < 10"
proof (induction n rule: nat_to_digits.induct)
  case (1 n)
  show ?case
  proof (cases "n < 10")
    case True
    then show ?thesis by (auto simp: nat_to_digits.simps [of n])
  next
    case False
    with 1 obtain d cs where "nat_to_digits (n div 10) = digit_char d # cs" "d < 10" by auto
    with False show ?thesis by (auto simp: nat_to_digits.simps [of n])
  qed
qed

lemma parse_fixed_digits: "parse_unsigned (fixed_digits n) = round64 (real n / 100)"
proof -
  let ?ip = "nat_to_digits (n div 100)"
  let ?a = "digit_char (n mod 100 div 10)" and ?b = "digit_char (n mod 10)"
  have a: "n mod 100 div 10 < 10" and b: "n mod 10 < 10" by simp_all
  from nat_to_digits_props [of "n div 100"]
  have ip: "?ip \<noteq> []" "list_all is_digit ?ip" "digits_value ?ip = n div 100" by simp_all
  from nat_to_digits_hd [of "n div 100"] obtain d cs where hd: "?ip = digit_char d # cs" "d < 10"
    by blast
  have inf: "take 8 (fixed_digits n) \<noteq> ''Infinity''"
    using digit_char_props(7) [OF hd(2)] by (simp add: fixed_digits_def hd(1))
  from ip(2) have all: "\<And>c. c \<in> set ?ip \<Longrightarrow> is_digit c" by (simp add: list_all_iff)
  have tw: "takeWhile is_digit (fixed_digits n) = ?ip"
    using all by (simp add: fixed_digits_def not_digit_point)
  have dw: "dropWhile is_digit (fixed_digits n) = CHR ''.'' # [?a, ?b]"
    using all by (simp add: fixed_digits_def not_digit_point)
  have "n mod 100 mod 10 = n mod 10" by (simp add: mod_mod_cancel)
  with mult_div_mod_eq [of 10 "n mod 100"]
  have "10 * (n mod 100 div 10) + n mod 10 = n mod 100" by (simp only:)
  then have fv: "digits_value [?a, ?b] = n mod 100"
    by (simp add: digits_value_def digit_char_props(2) [OF a] digit_char_props(2) [OF b])
  have "real (100 * (n div 100) + n mod 100) = real n" by (simp only: mult_div_mod_eq)
  then have "real n = 100 * real (n div 100) + real (n mod 100)" by (simp only: of_nat_add of_nat_mult of_nat_numeral)
  then have v: "real (n div 100) + real (n mod 100) / 100 = real n / 100"
    by (simp only: add_divide_distrib nonzero_mult_div_cancel_left)
  have da: "is_digit ?a" and db: "is_digit ?b"
    by (simp_all add: digit_char_props(1) [OF a] digit_char_props(1) [OF b])
  have "parse_unsigned (fixed_digits n) =
          round64 (real (digits_value ?ip) + real (digits_value [?a, ?b]) / 10 ^ length [?a, ?b])"
    unfolding parse_unsigned_def tw dw Let_def using inf ip(1) by (simp add: da db)
  also have "real (digits_value ?ip) + real (digits_value [?a, ?b]) / 10 ^ length [?a, ?b] =
               real (n div 100) + real (n mod 100) / 100"
    unfolding fv ip(3) by simp
  finally show ?thesis unfolding v .
qed

lemma parseFloat_toFixed2: "parseFloat (toFixed2 n) = round2 n"
proof (cases n)
  case NaN
  then show ?thesis by (simp add: parse_unsigned_def is_digit_def)
next
  case PInf
  then show ?thesis by (simp add: parse_unsigned_def)
next
  case NInf
  then show ?thesis by (simp add: parse_unsigned_def)
next
  case (Fin x)
  let ?n = "nat \<lfloor>\<bar>x\<bar> * 100 + 1 / 2\<rfloor>"
  have nonneg: "0 \<le> \<lfloor>\<bar>x\<bar> * 100 + 1 / 2\<rfloor>" by simp
  then have n: "real ?n = real_of_int \<lfloor>\<bar>x\<bar> * 100 + 1 / 2\<rfloor>" by simp
  from nat_to_digits_hd [of "?n div 100"] obtain d cs
    where hd: "nat_to_digits (?n div 100) = digit_char d # cs" "d < 10" by blast
  then have fd: "fixed_digits ?n = digit_char d # cs @ ''.'' @
      [digit_char (?n mod 100 div 10), digit_char (?n mod 10)]"
    by (simp add: fixed_digits_def)
  show ?thesis
  proof (cases "10 ^ 21 \<le> \<bar>x\<bar>")
    case True
    with Fin show ?thesis by simp
  next
    case False
    note small = this
    have p: "parseFloat (Dec (fixed_digits ?n)) = parse_unsigned (fixed_digits ?n)"
      using digit_char_props(4,5,6) [OF hd(2)] by (simp add: fd)
    show ?thesis
    proof (cases "x < 0")
      case True
      have "parseFloat (toFixed2 n) = neg (parse_unsigned (fixed_digits ?n))"
        using Fin small True by simp
      also have "\<dots> = round64 (- (real ?n / 100))"
        by (simp only: parse_fixed_digits round64_minus)
      also have "- (real ?n / 100) = sgn x * real_of_int \<lfloor>\<bar>x\<bar> * 100 + 1 / 2\<rfloor> / 100"
        using True by (simp only: n) simp
      finally show ?thesis using Fin small by simp
    next
      case False
      have "parseFloat (toFixed2 n) = round64 (real ?n / 100)"
        using Fin small False p by (simp add: parse_fixed_digits)
      also have "real ?n / 100 = sgn x * real_of_int \<lfloor>\<bar>x\<bar> * 100 + 1 / 2\<rfloor> / 100"
      proof (cases "x = 0")
        case True
        then show ?thesis by simp
      next
        case False
        with \<open>\<not> x < 0\<close> have "0 < x" by simp
        then show ?thesis by (simp only: n) simp
      qed
      finally show ?thesis using Fin small by simp
    qed
  qed
qed

section \<open>Trend classification\<close>

lemma analyzeTrend_direction:
  "direction (analyzeTrend now vals) =
     (if gt (abs_js (round2 (diffPercent_raw (analyzeTrend now vals)))) (Fin 5)
      then (if gt (diff (analyzeTrend now vals)) (Fin 0) then ''upward'' else ''downward'')
      else ''stable'')"
  by (simp add: analyzeTrend_def Let_def parseFloat_toFixed2 diffPercent_raw_def)

lemma analyzeTrend_fields:
  "sma (analyzeTrend now vals) = divide_js (reduce_sum vals) (length_js vals)
   \<and> (vals \<noteq> [] \<longrightarrow> latest (analyzeTrend now vals) = last vals)
   \<and> diff (analyzeTrend now vals) =
       sub (toNumber (latest (analyzeTrend now vals))) (sma (analyzeTrend now vals))"
  by (simp add: analyzeTrend_def Let_def)

lemma gt_abs_5: "gt z (Fin 5) \<Longrightarrow> gt (abs_js z) (Fin 5)"
  by (cases z) simp_all

lemma abs_js_neg: "abs_js (neg z) = abs_js z"
  by (cases z) simp_all

text \<open>
  The hundredths \<open>n / 100\<close> read back from the string are above 5 from \<open>n = 501\<close> on:
  rounding to binary64 does not move a number across 5.
\<close>

lemma hundredths_above_5:
  assumes "0 \<le> n"
  shows "gt (abs_js (round64 (real_of_int n / 100))) (Fin 5) \<longleftrightarrow> 501 \<le> n"
proof (cases "501 \<le> n")
  case True
  then have "501 / 100 \<le> real_of_int n / 100" by simp
  then have "gt (round64 (real_of_int n / 100)) (Fin 5)" by (rule round64_above_5)
  then show ?thesis using True by (simp add: gt_abs_5)
next
  case False
  note small = this
  show ?thesis
  proof (cases "n = 500")
    case True
    then show ?thesis by simp
  next
    case False
    show ?thesis
    proof (cases "n = 0")
      case True
      then show ?thesis by simp
    next
      case False
      with assms small \<open>n \<noteq> 500\<close> have "1 \<le> n" "n \<le> 499" by simp_all
      then have "1 / 100 \<le> real_of_int n / 100" "real_of_int n / 100 \<le> 499 / 100" by simp_all
      then obtain y where "round64 (real_of_int n / 100) = Fin y" "0 < y" "y < 5"
        using round64_below_5 by blast
      then show ?thesis using small by simp
    qed
  qed
qed

lemma round2_above_5:
  "gt (abs_js (round2 (Fin y))) (Fin 5) \<longleftrightarrow> 1001 / 200 \<le> \<bar>y\<bar>"
proof (cases "10 ^ 21 \<le> \<bar>y\<bar>")
  case True
  moreover have "(1001 / 200 :: real) < 10 ^ 21" "(5 :: real) < 10 ^ 21" by simp_all
  ultimately have "1001 / 200 \<le> \<bar>y\<bar>" "5 < \<bar>y\<bar>" by linarith+
  with True show ?thesis by simp
next
  case False
  define n where "n = \<lfloor>\<bar>y\<bar> * 100 + 1 / 2\<rfloor>"
  have n0: "0 \<le> n" by (simp add: n_def)
  have "501 \<le> n \<longleftrightarrow> 501 \<le> \<bar>y\<bar> * 100 + 1 / 2"
    by (simp add: n_def le_floor_iff)
  also have "\<dots> \<longleftrightarrow> 1001 / 200 \<le> \<bar>y\<bar>"
    by linarith
  finally have k: "501 \<le> n \<longleftrightarrow> 1001 / 200 \<le> \<bar>y\<bar>" .
  have r: "round2 (Fin y) = round64 (sgn y * real_of_int n / 100)"
    using False by (simp add: n_def)
  have a: "abs_js (round64 (sgn y * real_of_int n / 100)) = abs_js (round64 (real_of_int n / 100))"
  proof (cases "y < 0")
    case True
    then have "sgn y * real_of_int n / 100 = - (real_of_int n / 100)" by simp
    then show ?thesis by (simp only: round64_minus abs_js_neg)
  next
    case False
    show ?thesis
    proof (cases "y = 0")
      case True
      then show ?thesis by (simp add: n_def)
    next
      case False
      with \<open>\<not> y < 0\<close> have "0 < y" by simp
      then show ?thesis by simp
    qed
  qed
  show ?thesis
    unfolding r a using hundredths_above_5 [OF n0] k by simp
qed

lemma not_stable_diff:
  "direction (analyzeTrend now vals) = ''downward'' \<Longrightarrow> gt (Fin 0) (diff (analyzeTrend now vals))"
proof -
  let ?d = "diff (analyzeTrend now vals)" and ?s = "sma (analyzeTrend now vals)"
  assume "direction (analyzeTrend now vals) = ''downward''"
  then have g: "gt (abs_js (round2 (mul (divide_js ?d ?s) (Fin 100)))) (Fin 5)"
    and n: "\<not> gt ?d (Fin 0)"
    by (simp_all add: analyzeTrend_direction [of now vals] diffPercent_raw_def split: if_splits)
  show ?thesis
  proof (cases ?d)
    case NaN
    with g show ?thesis by simp
  next
    case PInf
    with n show ?thesis by simp
  next
    case NInf
    then show ?thesis by simp
  next
    case (Fin d)
    show ?thesis
    proof (cases "d = 0")
      case True
      with Fin g show ?thesis
        by (cases ?s) (simp_all add: inf_signed_def split: if_splits)
    next
      case False
      with Fin n show ?thesis by simp
    qed
  qed
qed

text \<open>
  A moving average of 100 with the latest value 104, 106, 94 and 116, and one of 100000
  with the latest value 105004 and 105005, operation by operation.
\<close>

lemma raw_104:
  "sma (analyzeTrend now (numbers [99, 99, 99, 99, 104])) = Fin 100
   \<and> diff (analyzeTrend now (numbers [99, 99, 99, 99, 104])) = Fin 4
   \<and> diffPercent_raw (analyzeTrend now (numbers [99, 99, 99, 99, 104])) = Fin 4"
proof -
  have a1: "add (Fin 0) (Fin 99) = Fin 99"
    by (simp add: sub_def)
  have a2: "add (Fin 99) (Fin 99) = Fin 198"
    by (simp add: sub_def)
  have a3: "add (Fin 198) (Fin 99) = Fin 297"
    by (simp add: sub_def)
  have a4: "add (Fin 297) (Fin 99) = Fin 396"
    by (simp add: sub_def)
  have a5: "add (Fin 396) (Fin 104) = Fin 500"
    by (simp add: sub_def)
  have a6: "divide_js (Fin 500) (Fin 5) = Fin 100"
    by (simp add: sub_def)
  have a7: "sub (Fin 104) (Fin 100) = Fin 4"
    by (simp add: sub_def)
  have a8: "divide_js (Fin 4) (Fin 100) = Fin (5764607523034235 / 144115188075855872)"
  proof -
    have "round64 (4 / 100) = Fin (5764607523034235 / 144115188075855872)"
      by (rule round64_nearestI [where k = "- 5" and n = 5764607523034235]) (simp_all add: pow2i_def)
    then show ?thesis by (simp add: sub_def)
  qed
  have a9: "mul (Fin (5764607523034235 / 144115188075855872)) (Fin 100) = Fin 4"
  proof -
    have "round64 ((5764607523034235 / 144115188075855872) * 100) = Fin 4"
      by (rule round64_nearestI [where k = 2 and n = 4503599627370496]) (simp_all add: pow2i_def)
    then show ?thesis by (simp add: sub_def)
  qed
  show ?thesis
    by (simp add: analyzeTrend_def Let_def diffPercent_raw_def numbers_def reduce_sum_def
        length_js_def a1 a2 a3 a4 a5 a6 a7 a8 a9
        del: divide_js.simps(1) mul.simps(1))
qed

lemma raw_106:
  "sma (analyzeTrend now (numbers [98, 99, 99, 98, 106])) = Fin 100
   \<and> diff (analyzeTrend now (numbers [98, 99, 99, 98, 106])) = Fin 6
   \<and> diffPercent_raw (analyzeTrend now (numbers [98, 99, 99, 98, 106])) = Fin 6"
proof -
  have b1: "add (Fin 0) (Fin 98) = Fin 98"
    by (simp add: sub_def)
  have b2: "add (Fin 98) (Fin 99) = Fin 197"
    by (simp add: sub_def)
  have b3: "add (Fin 197) (Fin 99) = Fin 296"
    by (simp add: sub_def)
  have b4: "add (Fin 296) (Fin 98) = Fin 394"
    by (simp add: sub_def)
  have b5: "add (Fin 394) (Fin 106) = Fin 500"
    by (simp add: sub_def)
  have b6: "divide_js (Fin 500) (Fin 5) = Fin 100"
    by (simp add: sub_def)
  have b7: "sub (Fin 106) (Fin 100) = Fin 6"
    by (simp add: sub_def)
  have b8: "divide_js (Fin 6) (Fin 100) = Fin (1080863910568919 / 18014398509481984)"
  proof -
    have "round64 (6 / 100) = Fin (1080863910568919 / 18014398509481984)"
      by (rule round64_nearestI [where k = "- 5" and n = 8646911284551352]) (simp_all add: pow2i_def)
    then show ?thesis by (simp add: sub_def)
  qed
  have b9: "mul (Fin (1080863910568919 / 18014398509481984)) (Fin 100) = Fin 6"
  proof -
    have "round64 ((1080863910568919 / 18014398509481984) * 100) = Fin 6"
      by (rule round64_nearestI [where k = 2 and n = 6755399441055744]) (simp_all add: pow2i_def)
    then show ?thesis by (simp add: sub_def)
  qed
  show ?thesis
    by (simp add: analyzeTrend_def Let_def diffPercent_raw_def numbers_def reduce_sum_def
        length_js_def b1 b2 b3 b4 b5 b6 b7 b8 b9
        del: divide_js.simps(1) mul.simps(1))
qed

lemma raw_94:
  "sma (analyzeTrend now (numbers [101, 102, 102, 101, 94])) = Fin 100
   \<and> diff (analyzeTrend now (numbers [101, 102, 102, 101, 94])) = Fin (- 6)
   \<and> diffPercent_raw (analyzeTrend now (numbers [101, 102, 102, 101, 94])) = Fin (- 6)"
proof -
  have c1: "add (Fin 0) (Fin 101) = Fin 101"
    by (simp add: sub_def)
  have c2: "add (Fin 101) (Fin 102) = Fin 203"
    by (simp add: sub_def)
  have c3: "add (Fin 203) (Fin 102) = Fin 305"
    by (simp add: sub_def)
  have c4: "add (Fin 305) (Fin 101) = Fin 406"
    by (simp add: sub_def)
  have c5: "add (Fin 406) (Fin 94) = Fin 500"
    by (simp add: sub_def)
  have c6: "divide_js (Fin 500) (Fin 5) = Fin 100"
    by (simp add: sub_def)
  have c7: "sub (Fin 94) (Fin 100) = Fin (- 6)"
    by (simp add: sub_def)
  have c8: "divide_js (Fin (- 6)) (Fin 100) = Fin (- (1080863910568919 / 18014398509481984))"
  proof -
    have "round64 ((- 6) / 100) = Fin (- (1080863910568919 / 18014398509481984))"
      by (rule round64_nearestI [where k = "- 5" and n = "- 8646911284551352"]) (simp_all add: pow2i_def)
    then show ?thesis by (simp add: sub_def)
  qed
  have c9: "mul (Fin (- (1080863910568919 / 18014398509481984))) (Fin 100) = Fin (- 6)"
  proof -
    have "round64 ((- (1080863910568919 / 18014398509481984)) * 100) = Fin (- 6)"
      by (rule round64_nearestI [where k = 2 and n = "- 6755399441055744"]) (simp_all add: pow2i_def)
    then show ?thesis by (simp add: sub_def)
  qed
  show ?thesis
    by (simp add: analyzeTrend_def Let_def diffPercent_raw_def numbers_def reduce_sum_def
        length_js_def c1 c2 c3 c4 c5 c6 c7 c8 c9
        del: divide_js.simps(1) mul.simps(1))
qed

lemma raw_116:
  "sma (analyzeTrend now (numbers [96, 96, 96, 96, 116])) = Fin 100
   \<and> diff (analyzeTrend now (numbers [96, 96, 96, 96, 116])) = Fin 16
   \<and> diffPercent_raw (analyzeTrend now (numbers [96, 96, 96, 96, 116])) = Fin 16"
proof -
  have w1: "add (Fin 0) (Fin 96) = Fin 96"
    by (simp add: sub_def)
  have w2: "add (Fin 96) (Fin 96) = Fin 192"
    by (simp add: sub_def)
  have w3: "add (Fin 192) (Fin 96) = Fin 288"
    by (simp add: sub_def)
  have w4: "add (Fin 288) (Fin 96) = Fin 384"
    by (simp add: sub_def)
  have w5: "add (Fin 384) (Fin 116) = Fin 500"
    by (simp add: sub_def)
  have w6: "divide_js (Fin 500) (Fin 5) = Fin 100"
    by (simp add: sub_def)
  have w7: "sub (Fin 116) (Fin 100) = Fin 16"
    by (simp add: sub_def)
  have w8: "divide_js (Fin 16) (Fin 100) = Fin (5764607523034235 / 36028797018963968)"
  proof -
    have "round64 (16 / 100) = Fin (5764607523034235 / 36028797018963968)"
      by (rule round64_nearestI [where k = "- 3" and n = 5764607523034235]) (simp_all add: pow2i_def)
    then show ?thesis by (simp add: sub_def)
  qed
  have w9: "mul (Fin (5764607523034235 / 36028797018963968)) (Fin 100) = Fin 16"
  proof -
    have "round64 ((5764607523034235 / 36028797018963968) * 100) = Fin 16"
      by (rule round64_nearestI [where k = 4 and n = 4503599627370496]) (simp_all add: pow2i_def)
    then show ?thesis by (simp add: sub_def)
  qed
  show ?thesis
    by (simp add: analyzeTrend_def Let_def diffPercent_raw_def numbers_def reduce_sum_def
        length_js_def w1 w2 w3 w4 w5 w6 w7 w8 w9
        del: divide_js.simps(1) mul.simps(1))
qed

lemma raw_105004:
  "sma (analyzeTrend now (numbers [98749, 98749, 98749, 98749, 105004])) = Fin 100000
   \<and> diff (analyzeTrend now (numbers [98749, 98749, 98749, 98749, 105004])) = Fin 5004
   \<and> diffPercent_raw (analyzeTrend now (numbers [98749, 98749, 98749, 98749, 105004])) = Fin (5634003133840491 / 1125899906842624)"
proof -
  have x1: "add (Fin 0) (Fin 98749) = Fin 98749"
    by (simp add: sub_def)
  have x2: "add (Fin 98749) (Fin 98749) = Fin 197498"
    by (simp add: sub_def)
  have x3: "add (Fin 197498) (Fin 98749) = Fin 296247"
    by (simp add: sub_def)
  have x4: "add (Fin 296247) (Fin 98749) = Fin 394996"
    by (simp add: sub_def)
  have x5: "add (Fin 394996) (Fin 105004) = Fin 500000"
    by (simp add: sub_def)
  have x6: "divide_js (Fin 500000) (Fin 5) = Fin 100000"
    by (simp add: sub_def)
  have x7: "sub (Fin 105004) (Fin 100000) = Fin 5004"
    by (simp add: sub_def)
  have x8: "divide_js (Fin 5004) (Fin 100000) = Fin (1802881002828957 / 36028797018963968)"
  proof -
    have "round64 (5004 / 100000) = Fin (1802881002828957 / 36028797018963968)"
      by (rule round64_nearestI [where k = "- 5" and n = 7211524011315828]) (simp_all add: pow2i_def)
    then show ?thesis by (simp add: sub_def)
  qed
  have x9: "mul (Fin (1802881002828957 / 36028797018963968)) (Fin 100) = Fin (5634003133840491 / 1125899906842624)"
  proof -
    have "round64 ((1802881002828957 / 36028797018963968) * 100) = Fin (5634003133840491 / 1125899906842624)"
      by (rule round64_nearestI [where k = 2 and n = 5634003133840491]) (simp_all add: pow2i_def)
    then show ?thesis by (simp add: sub_def)
  qed
  show ?thesis
    by (simp add: analyzeTrend_def Let_def diffPercent_raw_def numbers_def reduce_sum_def
        length_js_def x1 x2 x3 x4 x5 x6 x7 x8 x9
        del: divide_js.simps(1) mul.simps(1))
qed

lemma raw_105005:
  "sma (analyzeTrend now (numbers [98749, 98749, 98749, 98748, 105005])) = Fin 100000
   \<and> diff (analyzeTrend now (numbers [98749, 98749, 98749, 98748, 105005])) = Fin 5005
   \<and> diffPercent_raw (analyzeTrend now (numbers [98749, 98749, 98749, 98748, 105005])) = Fin (5635129033747333 / 1125899906842624)"
proof -
  have y1: "add (Fin 0) (Fin 98749) = Fin 98749"
    by (simp add: sub_def)
  have y2: "add (Fin 98749) (Fin 98749) = Fin 197498"
    by (simp add: sub_def)
  have y3: "add (Fin 197498) (Fin 98749) = Fin 296247"
    by (simp add: sub_def)
  have y4: "add (Fin 296247) (Fin 98748) = Fin 394995"
    by (simp add: sub_def)
  have y5: "add (Fin 394995) (Fin 105005) = Fin 500000"
    by (simp add: sub_def)
  have y6: "divide_js (Fin 500000) (Fin 5) = Fin 100000"
    by (simp add: sub_def)
  have y7: "sub (Fin 105005) (Fin 100000) = Fin 5005"
    by (simp add: sub_def)
  have y8: "divide_js (Fin 5005) (Fin 100000) = Fin (3606482581598293 / 72057594037927936)"
  proof -
    have "round64 (5005 / 100000) = Fin (3606482581598293 / 72057594037927936)"
      by (rule round64_nearestI [where k = "- 5" and n = 7212965163196586]) (simp_all add: pow2i_def)
    then show ?thesis by (simp add: sub_def)
  qed
  have y9: "mul (Fin (3606482581598293 / 72057594037927936)) (Fin 100) = Fin (5635129033747333 / 1125899906842624)"
  proof -
    have "round64 ((3606482581598293 / 72057594037927936) * 100) = Fin (5635129033747333 / 1125899906842624)"
      by (rule round64_nearestI [where k = 2 and n = 5635129033747333]) (simp_all add: pow2i_def)
    then show ?thesis by (simp add: sub_def)
  qed
  show ?thesis
    by (simp add: analyzeTrend_def Let_def diffPercent_raw_def numbers_def reduce_sum_def
        length_js_def y1 y2 y3 y4 y5 y6 y7 y8 y9
        del: divide_js.simps(1) mul.simps(1))
qed

lemma trend_examples:
  "sma (analyzeTrend now (numbers [99, 99, 99, 99, 104])) = Fin 100
   \<and> latest (analyzeTrend now (numbers [99, 99, 99, 99, 104])) = JNum (Fin 104)
   \<and> direction (analyzeTrend now (numbers [99, 99, 99, 99, 104])) = ''stable''
   \<and> sma (analyzeTrend now (numbers [98, 99, 99, 98, 106])) = Fin 100
   \<and> latest (analyzeTrend now (numbers [98, 99, 99, 98, 106])) = JNum (Fin 106)
   \<and> direction (analyzeTrend now (numbers [98, 99, 99, 98, 106])) = ''upward''
   \<and> sma (analyzeTrend now (numbers [101, 102, 102, 101, 94])) = Fin 100
   \<and> latest (analyzeTrend now (numbers [101, 102, 102, 101, 94])) = JNum (Fin 94)
   \<and> direction (analyzeTrend now (numbers [101, 102, 102, 101, 94])) = ''downward''"
proof -
  have l: "latest (analyzeTrend now (numbers [99, 99, 99, 99, 104])) = JNum (Fin 104)"
    "latest (analyzeTrend now (numbers [98, 99, 99, 98, 106])) = JNum (Fin 106)"
    "latest (analyzeTrend now (numbers [101, 102, 102, 101, 94])) = JNum (Fin 94)"
    by (simp_all add: analyzeTrend_def Let_def numbers_def)
  show ?thesis
    by (simp add: l analyzeTrend_direction raw_104 raw_106 raw_94)
qed

text \<open>
  Claim C6, as stated: the direction is \<open>stable\<close> exactly when
  \<open>|diffPercent| = |(latest - SMA) / SMA * 100| <= 5\<close>. \<open>_analyzeTrend\<close> compares
  \<open>parseFloat(diffPercent)\<close>, where \<open>diffPercent\<close> is the string that \<open>toFixed(2)\<close> has
  rounded to two decimals: for the buffer \<open>[98749, 98749, 98749, 98749, 105004]\<close> the
  moving average is 100000 and the difference 5004, so the percentage computed is
  5.0040000000000004, above 5, yet it is formatted as \<open>5.00\<close> and the direction is
  \<open>stable\<close>.
\<close>

theorem C6_rounded_percent_counterexample:
  "sma (analyzeTrend 0 (numbers [98749, 98749, 98749, 98749, 105004])) = Fin 100000
   \<and> diff (analyzeTrend 0 (numbers [98749, 98749, 98749, 98749, 105004])) = Fin 5004
   \<and> diffPercent_raw (analyzeTrend 0 (numbers [98749, 98749, 98749, 98749, 105004])) = Fin (5634003133840491 / 1125899906842624)
   \<and> \<not> \<bar>5634003133840491 / 1125899906842624 :: real\<bar> \<le> 5
   \<and> direction (analyzeTrend 0 (numbers [98749, 98749, 98749, 98749, 105004])) = ''stable''
   \<and> diffPercent (analyzeTrend 0 (numbers [98749, 98749, 98749, 98749, 105004])) = Chars ''5.00%''"
proof -
  have s: "diffPercent (analyzeTrend 0 (numbers [98749, 98749, 98749, 98749, 105004])) =
             concat_str (toFixed2 (diffPercent_raw (analyzeTrend 0 (numbers [98749, 98749, 98749, 98749, 105004])))) ''%''"
    by (simp add: analyzeTrend_def Let_def diffPercent_raw_def)
  show ?thesis
    unfolding s by (simp add: analyzeTrend_direction raw_105004
        fixed_digits_def nat_to_digits.simps digit_char_def)
qed

text \<open>The trend that \<open>process\<close> publishes is \<open>_analyzeTrend\<close> of the buffer after the append.\<close>

lemma trend_published:
  assumes "read_value x = Inr v"
  shows "values_buf (fst (trend_process pl now s x)) =
           (if gt (length_js (values_buf s @ [v])) (trendWindowSize s)
            then shift (values_buf s @ [v]) else values_buf s @ [v])
       \<and> (5 \<le> length (values_buf (fst (trend_process pl now s x))) \<longrightarrow>
            StageEmit (name s) ''trend''
              (PTrend (analyzeTrend now (values_buf (fst (trend_process pl now s x)))))
            \<in> set (snd (snd (trend_process pl now s x))))"
  using assms
  by (auto simp: trend_process_def trend_try_def Let_def emit_then_eq catching_eq split_beta emit_def
      split: option.splits sum.splits)

text \<open>
  Claim C6, amended: whenever the buffer of a TrendAnalyzer, the new value appended,
  holds at least 5 values, \<open>process\<close> publishes the trend of that buffer, with
  \<open>sma\<close> its mean, \<open>latest\<close> its last value and \<open>diff = latest - sma\<close>. The direction is
  \<open>stable\<close> exactly when the number that \<open>diff / sma * 100\<close> computes, rounded to two
  decimals as \<open>toFixed(2)\<close> rounds it, is at most 5 in magnitude or is NaN; for a finite
  number that is exactly when its magnitude is below 5.005. Otherwise the direction is
  \<open>upward\<close> when \<open>diff > 0\<close> and \<open>downward\<close> when \<open>diff < 0\<close>. For a moving average of 100,
  the latest value 104 gives \<open>stable\<close>, 106 gives \<open>upward\<close> and 94 gives \<open>downward\<close>.
\<close>

theorem C6_trend_direction:
  "(read_value x = Inr v \<longrightarrow>
      values_buf (fst (trend_process pl now s x)) =
        (if gt (length_js (values_buf s @ [v])) (trendWindowSize s)
         then shift (values_buf s @ [v]) else values_buf s @ [v])
      \<and> (5 \<le> length (values_buf (fst (trend_process pl now s x))) \<longrightarrow>
            StageEmit (name s) ''trend''
              (PTrend (analyzeTrend now (values_buf (fst (trend_process pl now s x)))))
            \<in> set (snd (snd (trend_process pl now s x)))))
   \<and> sma (analyzeTrend now vals) = divide_js (reduce_sum vals) (length_js vals)
   \<and> (vals \<noteq> [] \<longrightarrow> latest (analyzeTrend now vals) = last vals)
   \<and> diff (analyzeTrend now vals) =
       sub (toNumber (latest (analyzeTrend now vals))) (sma (analyzeTrend now vals))
   \<and> direction (analyzeTrend now vals) =
       (if gt (abs_js (round2 (diffPercent_raw (analyzeTrend now vals)))) (Fin 5)
        then (if gt (diff (analyzeTrend now vals)) (Fin 0) then ''upward'' else ''downward'')
        else ''stable'')
   \<and> (diffPercent_raw (analyzeTrend now vals) = Fin y \<longrightarrow>
        (direction (analyzeTrend now vals) = ''stable'' \<longleftrightarrow> \<bar>y\<bar> < 1001 / 200))
   \<and> (direction (analyzeTrend now vals) = ''downward'' \<longrightarrow>
        gt (Fin 0) (diff (analyzeTrend now vals)))
   \<and> sma (analyzeTrend now (numbers [99, 99, 99, 99, 104])) = Fin 100
   \<and> latest (analyzeTrend now (numbers [99, 99, 99, 99, 104])) = JNum (Fin 104)
   \<and> direction (analyzeTrend now (numbers [99, 99, 99, 99, 104])) = ''stable''
   \<and> sma (analyzeTrend now (numbers [98, 99, 99, 98, 106])) = Fin 100
   \<and> latest (analyzeTrend now (numbers [98, 99, 99, 98, 106])) = JNum (Fin 106)
   \<and> direction (analyzeTrend now (numbers [98, 99, 99, 98, 106])) = ''upward''
   \<and> sma (analyzeTrend now (numbers [101, 102, 102, 101, 94])) = Fin 100
   \<and> latest (analyzeTrend now (numbers [101, 102, 102, 101, 94])) = JNum (Fin 94)
   \<and> direction (analyzeTrend now (numbers [101, 102, 102, 101, 94])) = ''downward''"
proof -
  have st: "diffPercent_raw (analyzeTrend now vals) = Fin y \<longrightarrow>
        (direction (analyzeTrend now vals) = ''stable'' \<longleftrightarrow> \<bar>y\<bar> < 1001 / 200)"
  proof
    assume "diffPercent_raw (analyzeTrend now vals) = Fin y"
    with round2_above_5 [of y]
    show "direction (analyzeTrend now vals) = ''stable'' \<longleftrightarrow> \<bar>y\<bar> < 1001 / 200"
      by (simp add: analyzeTrend_direction [of now vals] not_le)
  qed
  have dn: "direction (analyzeTrend now vals) = ''downward'' \<longrightarrow>
        gt (Fin 0) (diff (analyzeTrend now vals))"
    using not_stable_diff [of now vals] by blast
  have pb: "read_value x = Inr v \<longrightarrow>
      values_buf (fst (trend_process pl now s x)) =
        (if gt (length_js (values_buf s @ [v])) (trendWindowSize s)
         then shift (values_buf s @ [v]) else values_buf s @ [v])
      \<and> (5 \<le> length (values_buf (fst (trend_process pl now s x))) \<longrightarrow>
            StageEmit (name s) ''trend''
              (PTrend (analyzeTrend now (values_buf (fst (trend_process pl now s x)))))
            \<in> set (snd (snd (trend_process pl now s x))))"
    using trend_published [of x v pl now s] by blast
  from pb st dn analyzeTrend_fields [of now vals] analyzeTrend_direction [of now vals]
    trend_examples [of now]
  show ?thesis by blast
qed

theorem C6_trend_direction_witness:
  "StageEmit ''t'' ''trend'' (PTrend (analyzeTrend 0 (numbers [96, 96, 96, 96, 116])))
     \<in> set (snd (snd (trend_process [] 0
          ((new_TrendAnalyzer ''t'' None)\<lparr>values_buf := numbers [96, 96, 96, 96]\<rparr>)
          (sample_point 116))))
   \<and> diffPercent_raw (analyzeTrend 0 (numbers [96, 96, 96, 96, 116])) = Fin 16
   \<and> direction (analyzeTrend 0 (numbers [96, 96, 96, 96, 116])) \<noteq> ''stable''
   \<and> latest (analyzeTrend 0 (numbers [96, 96, 96, 96, 116])) = JNum (Fin 116)
   \<and> diffPercent_raw (analyzeTrend 0 (numbers [98749, 98749, 98749, 98748, 105005])) = Fin (5635129033747333 / 1125899906842624)
   \<and> direction (analyzeTrend 0 (numbers [98749, 98749, 98749, 98748, 105005])) = ''stable''
   \<and> direction (analyzeTrend 0 (numbers [101, 102, 102, 101, 94])) = ''downward''
   \<and> gt (Fin 0) (diff (analyzeTrend 0 (numbers [101, 102, 102, 101, 94])))"
proof -
  let ?s = "(new_TrendAnalyzer ''t'' None)\<lparr>values_buf := numbers [96, 96, 96, 96]\<rparr>"
  have r: "read_value (sample_point 116) = Inr (JNum (Fin 116))"
    by (simp add: sample_point_def)
  have w: "(if gt (length_js (values_buf ?s @ [JNum (Fin 116)])) (trendWindowSize ?s)
            then shift (values_buf ?s @ [JNum (Fin 116)]) else values_buf ?s @ [JNum (Fin 116)]) =
           numbers [96, 96, 96, 96, 116]" "name ?s = ''t''"
    by (simp_all add: new_TrendAnalyzer_def numbers_def length_js_def)
  have d: "diffPercent_raw (analyzeTrend 0 (numbers [96, 96, 96, 96, 116])) = Fin 16"
    by (simp add: raw_116)
  have e: "diffPercent_raw (analyzeTrend 0 (numbers [98749, 98749, 98749, 98748, 105005])) = Fin (5635129033747333 / 1125899906842624)"
    by (simp add: raw_105005)
  have b: "\<bar>5635129033747333 / 1125899906842624 :: real\<bar> < 1001 / 200" by simp
  have l: "length (numbers [96, 96, 96, 96, 116]) = 5" "numbers [96, 96, 96, 96, 116] \<noteq> []"
    "last (numbers [96, 96, 96, 96, 116]) = JNum (Fin 116)"
    by (simp_all add: numbers_def)
  from C6_trend_direction [where x = "sample_point 116" and v = "JNum (Fin 116)" and pl = "[]"
      and now = 0 and s = ?s and vals = "numbers [96, 96, 96, 96, 116]" and y = 16] r d
  have one: "StageEmit ''t'' ''trend'' (PTrend (analyzeTrend 0 (numbers [96, 96, 96, 96, 116])))
     \<in> set (snd (snd (trend_process [] 0 ?s (sample_point 116))))
   \<and> direction (analyzeTrend 0 (numbers [96, 96, 96, 96, 116])) \<noteq> ''stable''
   \<and> latest (analyzeTrend 0 (numbers [96, 96, 96, 96, 116])) = JNum (Fin 116)"
    unfolding w by (clarsimp simp: l)
  from C6_trend_direction [where x = "sample_point 116" and v = "JNum (Fin 116)" and pl = "[]"
      and now = 0 and s = ?s and vals = "numbers [98749, 98749, 98749, 98748, 105005]"
      and y = "5635129033747333 / 1125899906842624"] e b
  have two: "direction (analyzeTrend 0 (numbers [98749, 98749, 98749, 98748, 105005])) = ''stable''"
    by blast
  from C6_trend_direction [where x = "sample_point 116" and v = "JNum (Fin 116)" and pl = "[]"
      and now = 0 and s = ?s and vals = "numbers [101, 102, 102, 101, 94]"
      and y = 16]
  have three: "direction (analyzeTrend 0 (numbers [101, 102, 102, 101, 94])) = ''downward''
   \<and> gt (Fin 0) (diff (analyzeTrend 0 (numbers [101, 102, 102, 101, 94])))"
    by blast
  from one two three d e show ?thesis by blast
qed

end
